theory Spec2Isabelle
  imports Main "HOL-Library.Finite_Map" "HOL-Library.Sublist"
begin

section \<open>Python library functions used by the scraper\<close>

text \<open>
  Strings and byte strings are \<open>string\<close> (lists of 8-bit characters). Paths follow the
  POSIX rules of \<open>os.path\<close>.
\<close>

definition last_segment :: "string \<Rightarrow> string" where
  \<comment> \<open>\<open>s.split("/")[-1]\<close> and \<open>os.path.basename(s)\<close>: what follows the last slash\<close>
  "last_segment s = rev (takeWhile (\<lambda>c. c \<noteq> CHR ''/'') (rev s))"

definition os_path_join :: "string \<Rightarrow> string \<Rightarrow> string" where
  "os_path_join a b =
     (if b \<noteq> [] \<and> hd b = CHR ''/'' then b
      else if a = [] \<or> last a = CHR ''/'' then a @ b
      else a @ ''/'' @ b)"

definition os_path_splitext :: "string \<Rightarrow> string \<times> string" where
  \<comment> \<open>on a name without slash: the extension starts at the last dot, unless only dots precede it\<close>
  "os_path_splitext b =
     (if CHR ''.'' \<notin> set b then (b, [])
      else let e = takeWhile (\<lambda>c. c \<noteq> CHR ''.'') (rev b);
               stem = rev (drop (length e + 1) (rev b))
           in if \<forall>c \<in> set stem. c = CHR ''.'' then (b, [])
              else (stem, CHR ''.'' # rev e))"

definition digit_char :: "nat \<Rightarrow> char" where
  "digit_char d = ''0123456789'' ! d"

fun str_nat :: "nat \<Rightarrow> string" where
  "str_nat n = (if n < 10 then [digit_char n] else str_nat (n div 10) @ [digit_char (n mod 10)])"

declare str_nat.simps [simp del]

definition str_int :: "int \<Rightarrow> string" where
  \<comment> \<open>\<open>str(i)\<close> and \<open>f"{i}"\<close> of a Python int\<close>
  "str_int i = (if i < 0 then CHR ''-'' # str_nat (nat (- i)) else str_nat (nat i))"

definition nat_of_str :: "string \<Rightarrow> nat" where
  "nat_of_str s = foldl (\<lambda>a c. 10 * a + (of_char c - 48)) 0 s"

section \<open>selenium\_handler.py: the retry decorator\<close>

text \<open>
  \<open>retry(max_tries, delay, backoff, exceptions)\<close> wraps a function. The behaviour of the
  wrapped function over its successive calls is given by \<open>func\<close>: call number \<open>k\<close> (from 0)
  returns a value, raises one of the listed \<open>exceptions\<close>, or raises something else.
  \<open>delay\<close> and \<open>backoff\<close> are non-negative whole numbers (the defaults are 1 and 2), so
  \<open>time.sleep\<close> accepts every duration the wrapper computes. The list records the
  arguments of \<open>time.sleep\<close> in order.
\<close>

datatype 'a call_outcome = Returns 'a | RaisesListed | RaisesOther

datatype 'a retry_result = Returned 'a | Reraised | ReturnedNone

function retry_wrapper ::
  "int \<Rightarrow> nat \<Rightarrow> nat \<Rightarrow> (nat \<Rightarrow> 'a call_outcome) \<Rightarrow> nat \<Rightarrow> nat list \<Rightarrow> 'a retry_result \<times> nat list"
where
  "retry_wrapper max_tries delay backoff func tries sleeps =
     (if int tries < max_tries then
        (case func tries of
           Returns v \<Rightarrow> (Returned v, sleeps)
         | RaisesOther \<Rightarrow> (Reraised, sleeps)
         | RaisesListed \<Rightarrow>
             (if int (tries + 1) = max_tries then (Reraised, sleeps)
              else retry_wrapper max_tries delay backoff func (tries + 1)
                     (sleeps @ [delay * backoff ^ ((tries + 1) - 1)])))
      else (ReturnedNone, sleeps))"
  by pat_completeness auto
termination
  by (relation "measure (\<lambda>(max_tries, delay, backoff, func, tries, sleeps). nat (max_tries - int tries))") auto

declare retry_wrapper.simps [simp del]

definition retry :: "int \<Rightarrow> nat \<Rightarrow> nat \<Rightarrow> (nat \<Rightarrow> 'a call_outcome) \<Rightarrow> 'a retry_result \<times> nat list" where
  "retry max_tries delay backoff func = retry_wrapper max_tries delay backoff func 0 []"

section \<open>The world the downloaders act on\<close>

text \<open>
  The file system maps the paths of regular files to their contents; directories are
  taken to exist and writes to succeed. The network is an oracle \<open>net\<close>: the reply that
  the \<open>k\<close>-th call of \<open>requests.get\<close> (from 0) meets. A reply is an exception raised by
  \<open>requests.get\<close> itself, or a status code with the chunks of the body that arrive and,
  when the transfer breaks off after them, the exception that ends it. \<open>requested\<close>
  lists the network calls made, \<open>slept\<close> the arguments of \<open>time.sleep\<close>, \<open>fs_log\<close> the
  changes made to the file system, and the three CSV files hold the rows appended by
  \<open>log_to_csv\<close>. Console and error-log messages are not part of the world.
\<close>

datatype http_reply = RequestRaises string | Reply int "string list" "string option"

datatype fs_event = Wrote string string | Removed string

type_synonym row = "string list"

record world =
  files :: "(string, string) fmap"
  requested :: "string list"
  slept :: "nat list"
  fs_log :: "fs_event list"
  csv_all :: "row list"
  csv_good :: "row list"
  csv_bad :: "row list"

type_synonym network = "nat \<Rightarrow> http_reply"

definition os_path_exists :: "world \<Rightarrow> string \<Rightarrow> bool" where
  "os_path_exists w p = (fmlookup (files w) p \<noteq> None)"

definition requests_get :: "network \<Rightarrow> string \<Rightarrow> world \<Rightarrow> http_reply \<times> world" where
  "requests_get net url w = (net (length (requested w)), w\<lparr>requested := requested w @ [url]\<rparr>)"

definition write_file :: "string \<Rightarrow> string \<Rightarrow> world \<Rightarrow> world" where
  \<comment> \<open>\<open>open(p, 'wb')\<close> followed by the writes: the file is replaced by \<open>content\<close>\<close>
  "write_file p content w =
     w\<lparr>files := fmupd p content (files w), fs_log := fs_log w @ [Wrote p content]\<rparr>"

definition os_remove :: "string \<Rightarrow> world \<Rightarrow> world" where
  "os_remove p w = w\<lparr>files := fmdrop p (files w), fs_log := fs_log w @ [Removed p]\<rparr>"

definition time_sleep :: "nat \<Rightarrow> world \<Rightarrow> world" where
  "time_sleep d w = w\<lparr>slept := slept w @ [d]\<rparr>"

section \<open>pdf\_downloader.py\<close>

text \<open>
  The settings the downloader reads from its configuration: the directory for the
  documents, the delay between attempts (a non-negative whole number of seconds, 5 by
  default) and the number of attempts (a Python int, 3 by default).
\<close>

record config =
  download_dir :: string
  retry_delay :: nat
  max_retries :: int

definition create_pdf_filename :: "config \<Rightarrow> string \<Rightarrow> string" where
  "create_pdf_filename c download_url = os_path_join (download_dir c) (last_segment download_url)"

definition is_pdf_valid :: "world \<Rightarrow> string \<Rightarrow> bool" where
  \<comment> \<open>a file that cannot be opened raises inside the \<open>try\<close> and gives \<open>False\<close>\<close>
  "is_pdf_valid w file_path =
     (case fmlookup (files w) file_path of
        None \<Rightarrow> False
      | Some content \<Rightarrow> take 4 content = ''%PDF'')"

definition log_to_csv :: "string \<Rightarrow> row \<Rightarrow> world \<Rightarrow> world" where
  "log_to_csv file_type record w =
     (if file_type = ''all'' then w\<lparr>csv_all := csv_all w @ [record]\<rparr>
      else if file_type = ''good'' then w\<lparr>csv_good := csv_good w @ [record]\<rparr>
      else if file_type = ''bad'' then w\<lparr>csv_bad := csv_bad w @ [record]\<rparr>
      else w)"

text \<open>
  The body of the \<open>try\<close> block of one attempt. \<open>Inr\<close> is the value returned from inside
  the block, \<open>Inl\<close> the \<open>str(e)\<close> of the exception that reaches the handler.
\<close>

definition try_download :: "network \<Rightarrow> string \<Rightarrow> string \<Rightarrow> world \<Rightarrow> (string + string) \<times> world" where
  "try_download net pdf_link pdf_filename w =
     (case requests_get net pdf_link w of
        (RequestRaises msg, w1) \<Rightarrow> (Inl msg, w1)
      | (Reply status_code chunks broken, w1) \<Rightarrow>
          if status_code = 200 then
            (let w2 = write_file pdf_filename (concat (filter (\<lambda>chunk. chunk \<noteq> []) chunks)) w1 in
             case broken of
               Some msg \<Rightarrow> (Inl msg, w2)
             | None \<Rightarrow>
                 if is_pdf_valid w2 pdf_filename then
                   (Inr pdf_filename,
                    log_to_csv ''good'' [pdf_link, ''Success'', ''PDF downloaded and valid'']
                      (log_to_csv ''all'' [pdf_link, ''Success'', ''PDF downloaded and valid''] w2))
                 else
                   (Inl ''Invalid PDF file format.'',
                    log_to_csv ''bad'' [pdf_link, ''Failed'', ''Invalid PDF format'']
                      (log_to_csv ''all'' [pdf_link, ''Failed'', ''Invalid PDF format''] w2)))
          else (Inl (''Failed to download PDF. Status code: '' @ str_int status_code), w1))"

text \<open>
  The \<open>for attempt in range(1, max_retries + 1)\<close> loop with its \<open>except Exception\<close>
  handler, and what follows the loop.
\<close>

function download_attempts ::
  "config \<Rightarrow> network \<Rightarrow> string \<Rightarrow> string \<Rightarrow> int \<Rightarrow> world \<Rightarrow> string option \<times> world"
where
  "download_attempts c net pdf_link pdf_filename attempt w =
     (if attempt \<le> max_retries c then
        (case try_download net pdf_link pdf_filename w of
           (Inr path, w1) \<Rightarrow> (Some path, w1)
         | (Inl msg, w1) \<Rightarrow>
             download_attempts c net pdf_link pdf_filename (attempt + 1)
               (let w2 = log_to_csv ''all'' [pdf_link, ''Failed'', msg] w1
                in if attempt < max_retries c then time_sleep (retry_delay c) w2 else w2))
      else (None, log_to_csv ''bad'' [pdf_link, ''Failed'', ''Maximum retries exceeded''] w))"
  by pat_completeness auto
termination
  by (relation "measure (\<lambda>(c, net, pdf_link, pdf_filename, attempt, w). nat (max_retries c + 1 - attempt))") auto

declare download_attempts.simps [simp del]

definition download_pdf :: "config \<Rightarrow> network \<Rightarrow> string \<Rightarrow> world \<Rightarrow> string option \<times> world" where
  "download_pdf c net pdf_link w =
     (let pdf_filename = create_pdf_filename c pdf_link in
      if os_path_exists w pdf_filename then
        (Some pdf_filename, log_to_csv ''all'' [pdf_link, ''Skipped'', ''PDF already exists''] w)
      else
        download_attempts c net pdf_link pdf_filename 1
          (log_to_csv ''all'' [pdf_link, ''Attempting'', ''Download started''] w))"

section \<open>v1/main.py: the first version of the downloader and the crawler\<close>

text \<open>
  Three library functions are parameters of the model: \<open>urlparse_path\<close> stands for
  \<open>urlparse(url).path\<close>, \<open>pdf_reader_accepts\<close> says of the contents of a file whether
  \<open>PdfReader\<close> reads it without raising, and \<open>pickle_loads\<close> and \<open>pickle_dumps\<close> are the
  pickle decoder and encoder for sets of URLs.
\<close>

datatype pickle_error = EOFError | UnpicklingError

record library =
  urlparse_path :: "string \<Rightarrow> string"
  pdf_reader_accepts :: "string \<Rightarrow> bool"
  pickle_loads :: "string \<Rightarrow> pickle_error + string set"
  pickle_dumps :: "string set \<Rightarrow> string"

record config_v1 =
  MAX_RETRIES :: int
  RETRY_DELAY :: nat
  PDF_DIR :: string
  RESUME_STATE_FILE :: string

definition Config :: config_v1 where
  "Config = \<lparr>MAX_RETRIES = 3, RETRY_DELAY = 5, PDF_DIR = ''pdfs'',
             RESUME_STATE_FILE = ''resume_state.pkl''\<rparr>"

subsection \<open>get\_unique\_filename\<close>

definition numbered_name :: "string \<Rightarrow> string \<Rightarrow> string \<Rightarrow> nat \<Rightarrow> string" where
  \<comment> \<open>\<open>os.path.join(PDF_DIR, f"{name}_{counter}{ext}")\<close>\<close>
  "numbered_name dir name ext counter = os_path_join dir (name @ ''_'' @ str_nat counter @ ext)"

text \<open>
  The \<open>while os.path.exists(...)\<close> loop ends because the file system holds finitely many
  files and different counters give different names.
\<close>

lemma nat_of_str_snoc: "nat_of_str (s @ [c]) = 10 * nat_of_str s + (of_char c - 48)"
  by (simp add: nat_of_str_def)

lemma of_char_digit_char: "d < 10 \<Longrightarrow> of_char (digit_char d) = (48 + d :: nat)"
proof -
  assume "d < 10"
  then have "d \<in> {0, 1, 2, 3, 4, 5, 6, 7, 8, 9}" by auto
  then show ?thesis by (auto simp: digit_char_def)
qed

lemma nat_of_str_digit: "d < 10 \<Longrightarrow> nat_of_str [digit_char d] = d"
  by (simp add: nat_of_str_def of_char_digit_char)

lemma nat_of_str_str_nat: "nat_of_str (str_nat n) = n"
proof (induction n rule: str_nat.induct)
  case (1 n)
  show ?case
  proof (cases "n < 10")
    case True
    then show ?thesis by (simp add: str_nat.simps [of n] nat_of_str_digit)
  next
    case False
    have "of_char (digit_char (n mod 10)) - 48 = n mod 10"
      by (simp add: of_char_digit_char)
    with False 1 show ?thesis
      by (simp add: str_nat.simps [of n] nat_of_str_snoc)
  qed
qed

lemma str_nat_inj: "str_nat m = str_nat n \<Longrightarrow> m = n"
  by (metis nat_of_str_str_nat)

lemma numbered_name_inj: "numbered_name dir name ext j = numbered_name dir name ext k \<Longrightarrow> j = k"
  by (cases name) (auto simp: numbered_name_def os_path_join_def dest: str_nat_inj split: if_splits)

lemma finite_numbered: "finite {k. numbered_name dir name ext k \<in> fmdom' fs}"
proof -
  have "inj (numbered_name dir name ext)"
    by (rule injI) (rule numbered_name_inj)
  then have "finite (numbered_name dir name ext -` fmdom' fs)"
    by (rule finite_vimageI [rotated]) simp
  then show ?thesis by (simp add: vimage_def)
qed

function unique_counter :: "world \<Rightarrow> string \<Rightarrow> string \<Rightarrow> string \<Rightarrow> nat \<Rightarrow> nat" where
  "unique_counter w dir name ext counter =
     (if os_path_exists w (numbered_name dir name ext counter)
      then unique_counter w dir name ext (counter + 1)
      else counter)"
  by pat_completeness auto
termination
proof (relation "measure (\<lambda>(w, dir, name, ext, counter).
          card {k. counter \<le> k \<and> numbered_name dir name ext k \<in> fmdom' (files w)})")
  show "wf (measure (\<lambda>(w, dir, name, ext, counter).
          card {k. counter \<le> k \<and> numbered_name dir name ext k \<in> fmdom' (files w)}))"
    by simp
next
  fix w :: world and dir name ext :: string and counter :: nat
  assume ex: "os_path_exists w (numbered_name dir name ext counter)"
  let ?S = "\<lambda>c. {k. c \<le> k \<and> numbered_name dir name ext k \<in> fmdom' (files w)}"
  have fin: "finite (?S counter)"
    using finite_numbered [of dir name ext "files w"] by simp
  have mem: "counter \<in> ?S counter"
    using ex by (auto simp: os_path_exists_def fmlookup_dom'_iff)
  have sub: "?S (counter + 1) \<subseteq> ?S counter - {counter}"
    by auto
  have "card (?S (counter + 1)) \<le> card (?S counter - {counter})"
    using fin sub by (intro card_mono) auto
  also have "\<dots> < card (?S counter)"
    using fin mem by (intro card_Diff1_less)
  finally show "((w, dir, name, ext, counter + 1), (w, dir, name, ext, counter))
      \<in> measure (\<lambda>(w, dir, name, ext, counter).
          card {k. counter \<le> k \<and> numbered_name dir name ext k \<in> fmdom' (files w)})"
    by simp
qed

declare unique_counter.simps [simp del]

definition get_unique_filename :: "library \<Rightarrow> config_v1 \<Rightarrow> world \<Rightarrow> string \<Rightarrow> string" where
  "get_unique_filename lib c w url =
     (let base_name = last_segment (urlparse_path lib url);
          (name, ext) = os_path_splitext base_name;
          counter = unique_counter w (PDF_DIR c) name ext 1
      in numbered_name (PDF_DIR c) name ext counter)"

subsection \<open>download\_pdf and download\_pdfs\<close>

definition validate_pdf :: "library \<Rightarrow> world \<Rightarrow> string \<Rightarrow> bool" where
  "validate_pdf lib w pdf_path =
     (case fmlookup (files w) pdf_path of
        None \<Rightarrow> False
      | Some content \<Rightarrow> pdf_reader_accepts lib content)"

text \<open>A row of a CSV file is the URL and the status; the time stamp is left out.\<close>

definition log_pdf_details :: "string \<Rightarrow> string \<Rightarrow> world \<Rightarrow> world" where
  "log_pdf_details pdf_url status w =
     (let w1 = w\<lparr>csv_all := csv_all w @ [[pdf_url, status]]\<rparr>
      in if status = ''Success'' then w1\<lparr>csv_good := csv_good w1 @ [[pdf_url, status]]\<rparr>
         else w1\<lparr>csv_bad := csv_bad w1 @ [[pdf_url, status]]\<rparr>)"

text \<open>
  The \<open>try\<close> block of one attempt: \<open>Inr b\<close> when it returns \<open>b\<close>, \<open>Inl ()\<close> when a
  \<open>RequestException\<close> reaches the handler. Without \<open>stream=True\<close> the whole body is read
  inside \<open>requests.get\<close>, so a transfer that breaks off raises there;
  \<open>raise_for_status\<close> raises for the status codes 400 to 599.
\<close>

definition try_download_v1 ::
  "library \<Rightarrow> config_v1 \<Rightarrow> network \<Rightarrow> string \<Rightarrow> world \<Rightarrow> (unit + bool) \<times> world" where
  "try_download_v1 lib c net pdf_url w =
     (case requests_get net pdf_url w of
        (RequestRaises msg, w1) \<Rightarrow> (Inl (), w1)
      | (Reply status_code chunks broken, w1) \<Rightarrow>
          if broken \<noteq> None then (Inl (), w1)
          else if 400 \<le> status_code \<and> status_code < 600 then (Inl (), w1)
          else
            (let pdf_name = get_unique_filename lib c w1 pdf_url;
                 w2 = write_file pdf_name (concat chunks) w1
             in if validate_pdf lib w2 pdf_name
                then (Inr True, log_pdf_details pdf_url ''Success'' w2)
                else (Inr False, os_remove pdf_name w2)))"

function download_attempts_v1 ::
  "library \<Rightarrow> config_v1 \<Rightarrow> network \<Rightarrow> string \<Rightarrow> int \<Rightarrow> world \<Rightarrow> bool \<times> world"
where
  "download_attempts_v1 lib c net pdf_url attempt w =
     (if attempt < MAX_RETRIES c then
        (case try_download_v1 lib c net pdf_url w of
           (Inr b, w1) \<Rightarrow> (b, w1)
         | (Inl _, w1) \<Rightarrow>
             download_attempts_v1 lib c net pdf_url (attempt + 1)
               (if attempt < MAX_RETRIES c - 1 then time_sleep (RETRY_DELAY c) w1 else w1))
      else (False, log_pdf_details pdf_url ''Failed'' w))"
  by pat_completeness auto
termination
  by (relation "measure (\<lambda>(lib, c, net, pdf_url, attempt, w). nat (MAX_RETRIES c - attempt))") auto

declare download_attempts_v1.simps [simp del]

definition download_pdf_v1 :: "library \<Rightarrow> config_v1 \<Rightarrow> network \<Rightarrow> string \<Rightarrow> world \<Rightarrow> bool \<times> world" where
  "download_pdf_v1 lib c net pdf_url w = download_attempts_v1 lib c net pdf_url 0 w"

text \<open>
  \<open>download_pdfs\<close> submits one \<open>download_pdf\<close> task per URL to the thread pool and waits
  for all of them, discarding the results. The model runs the tasks one after the other
  in the order of submission.
\<close>

fun download_pdfs :: "library \<Rightarrow> config_v1 \<Rightarrow> network \<Rightarrow> string list \<Rightarrow> world \<Rightarrow> world" where
  "download_pdfs lib c net [] w = w"
| "download_pdfs lib c net (url # pdf_urls) w =
     download_pdfs lib c net pdf_urls (snd (download_pdf_v1 lib c net url w))"

subsection \<open>The crawler and its resume state\<close>

definition pickle_load :: "library \<Rightarrow> string \<Rightarrow> pickle_error + string set" where
  \<comment> \<open>\<open>pickle.load\<close> raises \<open>EOFError\<close> on a file with no bytes\<close>
  "pickle_load lib content = (if content = [] then Inl EOFError else pickle_loads lib content)"

definition load_resume_state :: "library \<Rightarrow> config_v1 \<Rightarrow> world \<Rightarrow> pickle_error + string set" where
  "load_resume_state lib c w =
     (case fmlookup (files w) (RESUME_STATE_FILE c) of
        Some content \<Rightarrow> pickle_load lib content
      | None \<Rightarrow> Inr {})"

definition save_resume_state :: "library \<Rightarrow> config_v1 \<Rightarrow> string set \<Rightarrow> world \<Rightarrow> world" where
  "save_resume_state lib c visited_urls w =
     write_file (RESUME_STATE_FILE c) (pickle_dumps lib visited_urls) w"

definition extract_pdf_urls :: "string list option" where
  \<comment> \<open>the body of the method is \<open>pass\<close>: it returns \<open>None\<close>\<close>
  "extract_pdf_urls = None"

text \<open>
  \<open>crawl_with\<close> is \<open>crawl\<close> with the result of \<open>extract_pdf_urls\<close> as a parameter.
  \<open>browser_ok\<close> says whether loading the search page and handling its CAPTCHA complete
  without an exception. Iterating over \<open>None\<close> raises a \<open>TypeError\<close>, which the handler
  of \<open>crawl\<close> logs like any other exception; the \<open>finally\<close> clause saves the resume
  state. The result is the crawler's \<open>visited_urls\<close> and the world after the call.
\<close>

definition crawl_with ::
  "string list option \<Rightarrow> library \<Rightarrow> config_v1 \<Rightarrow> network \<Rightarrow> bool \<Rightarrow> string set \<Rightarrow> world
     \<Rightarrow> string set \<times> world" where
  "crawl_with extracted lib c net browser_ok visited_urls w =
     (let w1 = (if browser_ok then
                  (case extracted of
                     None \<Rightarrow> w
                   | Some pdf_urls \<Rightarrow> download_pdfs lib c net pdf_urls w)
                else w)
      in (visited_urls, save_resume_state lib c visited_urls w1))"

definition crawl :: "library \<Rightarrow> config_v1 \<Rightarrow> network \<Rightarrow> bool \<Rightarrow> string set \<Rightarrow> world \<Rightarrow> string set \<times> world" where
  "crawl = crawl_with extract_pdf_urls"

section \<open>captcha\_handler.py\<close>

text \<open>
  The browser, the AI service and the operator are oracles, each indexed by the number
  of calls made to it so far: what fetching the CAPTCHA image meets, what the POST to
  the AI service meets, what the operator types, and what happens when a solution is
  filled in and submitted. The state holds the image file at \<open>captcha_image_path\<close> (if it
  exists) and the calls made: \<open>fetches\<close> of the image, \<open>ai_calls\<close> of
  \<open>solve_captcha_with_ai\<close>, \<open>ai_posts\<close> to the service, \<open>prompts\<close> of the operator, the
  solutions submitted and the arguments of \<open>time.sleep\<close>. Log messages are left out.
\<close>

datatype captcha_error =
  ElementNotFound | RequestFailed | BadStatus int | ImageMissing
  | AiServiceError | AiNoSolution | AiBadStatus int | BrowserError

datatype fetch_outcome = LocateRaises | GetRaises | Fetched int string

datatype ai_outcome = PostRaises | AiReply int "string option"

datatype submit_outcome = FillRaises | SubmitRaises | PageRaises | Page string

record captcha_env =
  ai_service_url :: string
  ai_service_api_key :: string
  settle_delay :: nat
  captcha_fetch :: "nat \<Rightarrow> fetch_outcome"
  ai_service :: "nat \<Rightarrow> ai_outcome"
  operator_input :: "nat \<Rightarrow> string"
  submission :: "nat \<Rightarrow> submit_outcome"

record captcha_state =
  image :: "string option"
  fetches :: nat
  ai_calls :: nat
  ai_posts :: nat
  prompts :: nat
  submitted :: "string list"
  naps :: "nat list"

definition is_space :: "char \<Rightarrow> bool" where
  "is_space ch = (of_char ch \<in> {9, 10, 11, 12, 13, 28, 29, 30, 31, 32 :: nat})"

definition py_strip :: "string \<Rightarrow> string" where
  "py_strip s = rev (dropWhile is_space (rev (dropWhile is_space s)))"

definition fetch_captcha_file :: "captcha_env \<Rightarrow> captcha_state \<Rightarrow> (captcha_error + unit) \<times> captcha_state" where
  "fetch_captcha_file e s =
     (let s1 = s\<lparr>fetches := fetches s + 1\<rparr> in
      case captcha_fetch e (fetches s) of
        LocateRaises \<Rightarrow> (Inl ElementNotFound, s1)
      | GetRaises \<Rightarrow> (Inl RequestFailed, s1)
      | Fetched status_code content \<Rightarrow>
          if status_code = 200 then (Inr (), s1\<lparr>image := Some content\<rparr>)
          else (Inl (BadStatus status_code), s1))"

definition solve_captcha_manually :: "captcha_env \<Rightarrow> captcha_state \<Rightarrow> string \<times> captcha_state" where
  "solve_captcha_manually e s =
     (py_strip (operator_input e (prompts s)), s\<lparr>prompts := prompts s + 1\<rparr>)"

definition solve_captcha_with_ai :: "captcha_env \<Rightarrow> captcha_state \<Rightarrow> (captcha_error + string) \<times> captcha_state" where
  "solve_captcha_with_ai e s =
     (let s1 = s\<lparr>ai_calls := ai_calls s + 1\<rparr> in
      if ai_service_url e = [] \<or> ai_service_api_key e = [] then
        (case solve_captcha_manually e s1 of (solution, s2) \<Rightarrow> (Inr solution, s2))
      else
        (case image s1 of
           None \<Rightarrow> (Inl ImageMissing, s1)
         | Some image_file \<Rightarrow>
             (let s2 = s1\<lparr>ai_posts := ai_posts s1 + 1\<rparr> in
              case ai_service e (ai_posts s1) of
                PostRaises \<Rightarrow> (Inl AiServiceError, s2)
              | AiReply status_code captcha_solution \<Rightarrow>
                  if status_code = 200 then
                    (case captcha_solution of
                       None \<Rightarrow> (Inl AiNoSolution, s2)
                     | Some solution \<Rightarrow>
                         if solution \<noteq> [] then (Inr solution, s2) else (Inl AiNoSolution, s2))
                  else (Inl (AiBadStatus status_code), s2))))"

text \<open>
  \<open>enter_captcha_try\<close> is the \<open>try\<close> block of \<open>enter_captcha_solution\<close>;
  \<open>enter_captcha_solution\<close> adds the \<open>except Exception\<close> handler, which returns \<open>False\<close>.
\<close>

definition enter_captcha_try ::
  "captcha_env \<Rightarrow> string \<Rightarrow> captcha_state \<Rightarrow> (captcha_error + bool) \<times> captcha_state" where
  "enter_captcha_try e solution s =
     (let s1 = s\<lparr>submitted := submitted s @ [solution]\<rparr> in
      case submission e (length (submitted s)) of
        FillRaises \<Rightarrow> (Inl BrowserError, s1)
      | SubmitRaises \<Rightarrow> (Inl BrowserError, s1)
      | PageRaises \<Rightarrow> (Inl BrowserError, s1\<lparr>naps := naps s1 @ [settle_delay e]\<rparr>)
      | Page page_source \<Rightarrow>
          (if sublist ''Invalid CAPTCHA'' page_source then Inr False else Inr True,
           s1\<lparr>naps := naps s1 @ [settle_delay e]\<rparr>))"

definition enter_captcha_solution ::
  "captcha_env \<Rightarrow> string \<Rightarrow> captcha_state \<Rightarrow> (captcha_error + bool) \<times> captcha_state" where
  "enter_captcha_solution e solution s =
     (case enter_captcha_try e solution s of
        (Inl err, s1) \<Rightarrow> (Inr False, s1)
      | (Inr result, s1) \<Rightarrow> (Inr result, s1))"

definition clean_up_captcha_file :: "captcha_state \<Rightarrow> captcha_state" where
  "clean_up_captcha_file s = s\<lparr>image := None\<rparr>"

text \<open>
  \<open>solve_captcha_try\<close> is the \<open>try\<close> block of \<open>solve_captcha\<close> up to the point where it
  returns, raises (\<open>Return\<close> of a value or of an exception) or reaches one of its two
  \<open>return self.solve_captcha(tries_remaining - 1)\<close> statements (\<open>Recurse\<close>).
  \<open>solve_captcha\<close> makes the recursive call and runs the \<open>finally\<close> clause.
\<close>

datatype attempt_outcome = Return "captcha_error + bool" | Recurse

definition solve_captcha_try ::
  "captcha_env \<Rightarrow> int \<Rightarrow> captcha_state \<Rightarrow> attempt_outcome \<times> captcha_state" where
  "solve_captcha_try e tries_remaining s =
     (case fetch_captcha_file e s of
        (Inl err, s1) \<Rightarrow> (Return (Inl err), s1)
      | (Inr _, s1) \<Rightarrow>
          (case (if tries_remaining = 1 then
                   (case solve_captcha_manually e s1 of (solution, s2) \<Rightarrow> (Some solution, s2))
                 else
                   (case solve_captcha_with_ai e s1 of
                      (Inr solution, s2) \<Rightarrow> (Some solution, s2)
                    | (Inl err, s2) \<Rightarrow>
                        if tries_remaining - 1 > 0 then (None, s2)
                        else (case solve_captcha_manually e s2 of
                                (solution, s3) \<Rightarrow> (Some solution, s3))))
           of
             (None, s2) \<Rightarrow> (Recurse, s2)
           | (Some solution, s2) \<Rightarrow>
               (case enter_captcha_solution e solution s2 of
                  (Inl err, s3) \<Rightarrow> (Return (Inl err), s3)
                | (Inr True, s3) \<Rightarrow> (Return (Inr True), s3)
                | (Inr False, s3) \<Rightarrow>
                    if tries_remaining > 1 then (Recurse, s3) else (Return (Inr False), s3))))"

lemma solve_captcha_try_Recurse:
  "solve_captcha_try e tries_remaining s = (Recurse, s1) \<Longrightarrow> 1 < tries_remaining"
  by (auto simp: solve_captcha_try_def split: prod.splits sum.splits if_splits option.splits bool.splits)

function solve_captcha ::
  "captcha_env \<Rightarrow> int \<Rightarrow> captcha_state \<Rightarrow> (captcha_error + bool) \<times> captcha_state"
where
  "solve_captcha e tries_remaining s =
     (case solve_captcha_try e tries_remaining s of
        (Return result, s1) \<Rightarrow> (result, clean_up_captcha_file s1)
      | (Recurse, s1) \<Rightarrow>
          (case solve_captcha e (tries_remaining - 1) s1 of
             (result, s2) \<Rightarrow> (result, clean_up_captcha_file s2)))"
  by pat_completeness auto
termination
  by (relation "measure (\<lambda>(e, tries_remaining, s). nat tries_remaining)")
     (auto dest: solve_captcha_try_Recurse [OF sym])

declare solve_captcha.simps [simp del]

definition start_captcha_process ::
  "captcha_env \<Rightarrow> int \<Rightarrow> captcha_state \<Rightarrow> (captcha_error + bool) \<times> captcha_state" where
  \<comment> \<open>\<open>retries\<close> is the handler's \<open>self.max_retries\<close>\<close>
  "start_captcha_process e retries s = solve_captcha e retries s"

section \<open>Example inputs\<close>

text \<open>
  The concrete inputs on which the properties below are evaluated: a browser and an AI
  service that always answer, a link to a document, networks that always give the same
  reply (a PDF, an HTML page, a transfer that breaks off, a time-out), and the settings
  of the two downloaders. For \<open>example_library\<close>, \<open>urlparse\<close> gives the path
  \<open>/docs/a.pdf\<close> for the example link and \<open>PdfReader\<close> accepts the contents that
  start with \<open>%PDF\<close>.
\<close>

definition example_env :: captcha_env where
  "example_env =
     \<lparr>ai_service_url = ''https://api.captchaservice.com/solve'',
      ai_service_api_key = ''key'',
      settle_delay = 5,
      captcha_fetch = (\<lambda>k. Fetched 200 ''PNG''),
      ai_service = (\<lambda>k. AiReply 200 (Some ''x7k2p'')),
      operator_input = (\<lambda>k. '' x7k2p ''),
      submission = (\<lambda>k. Page ''<html>Results</html>'')\<rparr>"

definition fresh_state :: captcha_state where
  "fresh_state =
     \<lparr>image = None, fetches = 0, ai_calls = 0, ai_posts = 0, prompts = 0,
      submitted = [], naps = []\<rparr>"

definition failing_browser_env :: captcha_env where
  "failing_browser_env = example_env\<lparr>submission := (\<lambda>k. if k = 0 then SubmitRaises else Page ''<html>Results</html>'')\<rparr>"

definition empty_world :: world where
  "empty_world =
     \<lparr>files = fmempty, requested = [], slept = [], fs_log = [],
      csv_all = [], csv_good = [], csv_bad = []\<rparr>"

definition example_config :: config where
  "example_config = \<lparr>download_dir = ''data/pdfs'', retry_delay = 5, max_retries = 3\<rparr>"

definition single_try_config :: config where
  "single_try_config = \<lparr>download_dir = ''data/pdfs'', retry_delay = 5, max_retries = 1\<rparr>"

definition example_link :: string where
  "example_link = ''https://judgments.ecourts.gov.in/docs/a.pdf''"

definition pdf_net :: network where
  "pdf_net = (\<lambda>k. Reply 200 [''%PDF-1.4''] None)"

definition html_net :: network where
  "html_net = (\<lambda>k. Reply 200 [''<html>''] None)"

definition broken_net :: network where
  "broken_net = (\<lambda>k. Reply 200 [''%PDF-1.4 '', ''1 0 obj''] (Some ''Connection broken''))"

definition failing_net :: network where
  "failing_net = (\<lambda>k. RequestRaises ''timed out'')"

definition example_library :: library where
  "example_library =
     \<lparr>urlparse_path = (\<lambda>url. if url = example_link then ''/docs/a.pdf'' else []),
      pdf_reader_accepts = (\<lambda>content. take 4 content = ''%PDF''),
      pickle_loads = (\<lambda>content. Inl UnpicklingError),
      pickle_dumps = (\<lambda>visited. ''pickle'')\<rparr>"

definition four_tries_config :: config where
  "four_tries_config = \<lparr>download_dir = ''data/pdfs'', retry_delay = 5, max_retries = 4\<rparr>"

definition always_intercepted :: "nat \<Rightarrow> unit call_outcome" where
  "always_intercepted = (\<lambda>k. RaisesListed)"

definition truncated_state_world :: world where
  "truncated_state_world = empty_world\<lparr>files := fmupd ''resume_state.pkl'' [] fmempty\<rparr>"

definition garbage_state_world :: world where
  "garbage_state_world = empty_world\<lparr>files := fmupd ''resume_state.pkl'' ''garbage'' fmempty\<rparr>"

text \<open>The definitions to unfold when a call is evaluated on an example.\<close>

lemmas example_defs =
  empty_world_def example_config_def single_try_config_def example_link_def pdf_net_def html_net_def
  broken_net_def failing_net_def example_library_def Config_def

lemmas run_defs =
  download_pdf_def create_pdf_filename_def os_path_join_def last_segment_def os_path_exists_def
  download_attempts.simps try_download_def requests_get_def write_file_def is_pdf_valid_def
  log_to_csv_def time_sleep_def Let_def

text \<open>The world after the first download of the example link by v1/main.py.\<close>

definition first_world :: world where
  "first_world = log_pdf_details example_link ''Success''
     (write_file ''pdfs/a_1.pdf'' ''%PDF-1.4'' (snd (requests_get pdf_net example_link empty_world)))"

section \<open>Properties of the CAPTCHA handler\<close>

subsection \<open>What each step does to the record of calls\<close>

lemma solve_captcha_no_recursion:
  "tries_remaining \<le> 1 \<Longrightarrow>
   solve_captcha e tries_remaining s =
     (case solve_captcha_try e tries_remaining s of
        (Return result, s1) \<Rightarrow> (result, clean_up_captcha_file s1)
      | (Recurse, s1) \<Rightarrow> (Inr False, s1))"
  by (subst solve_captcha.simps)
     (auto split: prod.splits attempt_outcome.splits dest: solve_captcha_try_Recurse)

lemma fetch_captcha_file_fields:
  "fetches (snd (fetch_captcha_file e s)) = fetches s + 1"
  "ai_calls (snd (fetch_captcha_file e s)) = ai_calls s"
  "ai_posts (snd (fetch_captcha_file e s)) = ai_posts s"
  "prompts (snd (fetch_captcha_file e s)) = prompts s"
  "submitted (snd (fetch_captcha_file e s)) = submitted s"
  "naps (snd (fetch_captcha_file e s)) = naps s"
  by (simp_all add: fetch_captcha_file_def Let_def split: fetch_outcome.splits)

lemma fetch_captcha_file_result:
  "fst (fetch_captcha_file e s) = Inr () \<longleftrightarrow> (\<exists>content. captcha_fetch e (fetches s) = Fetched 200 content)"
  by (simp add: fetch_captcha_file_def Let_def split: fetch_outcome.splits)

lemma solve_captcha_manually_fields:
  "fetches (snd (solve_captcha_manually e s)) = fetches s"
  "ai_calls (snd (solve_captcha_manually e s)) = ai_calls s"
  "ai_posts (snd (solve_captcha_manually e s)) = ai_posts s"
  "prompts (snd (solve_captcha_manually e s)) = prompts s + 1"
  "submitted (snd (solve_captcha_manually e s)) = submitted s"
  "naps (snd (solve_captcha_manually e s)) = naps s"
  "image (snd (solve_captcha_manually e s)) = image s"
  by (simp_all add: solve_captcha_manually_def)

lemma solve_captcha_with_ai_fields:
  "fetches (snd (solve_captcha_with_ai e s)) = fetches s"
  "ai_calls (snd (solve_captcha_with_ai e s)) = ai_calls s + 1"
  "submitted (snd (solve_captcha_with_ai e s)) = submitted s"
  "naps (snd (solve_captcha_with_ai e s)) = naps s"
  "image (snd (solve_captcha_with_ai e s)) = image s"
  by (simp_all add: solve_captcha_with_ai_def solve_captcha_manually_def Let_def
        split: option.splits ai_outcome.splits)

lemma enter_captcha_solution_fields:
  "fetches (snd (enter_captcha_solution e solution s)) = fetches s"
  "ai_calls (snd (enter_captcha_solution e solution s)) = ai_calls s"
  "ai_posts (snd (enter_captcha_solution e solution s)) = ai_posts s"
  "prompts (snd (enter_captcha_solution e solution s)) = prompts s"
  "submitted (snd (enter_captcha_solution e solution s)) = submitted s @ [solution]"
  "image (snd (enter_captcha_solution e solution s)) = image s"
  by (simp_all add: enter_captcha_solution_def enter_captcha_try_def Let_def
        split: submit_outcome.splits)

lemma enter_captcha_solution_never_raises:
  "\<exists>b. fst (enter_captcha_solution e solution s) = Inr b"
  by (auto simp: enter_captcha_solution_def split: prod.splits sum.splits)

lemma clean_up_captcha_file_fields:
  "fetches (clean_up_captcha_file s) = fetches s"
  "ai_calls (clean_up_captcha_file s) = ai_calls s"
  "ai_posts (clean_up_captcha_file s) = ai_posts s"
  "prompts (clean_up_captcha_file s) = prompts s"
  "submitted (clean_up_captcha_file s) = submitted s"
  "naps (clean_up_captcha_file s) = naps s"
  by (simp_all add: clean_up_captcha_file_def)

text \<open>The try block with one try remaining.\<close>

lemma solve_captcha_try_last:
  "solve_captcha_try e 1 s =
     (case fetch_captcha_file e s of
        (Inl err, s1) \<Rightarrow> (Return (Inl err), s1)
      | (Inr u, s1) \<Rightarrow>
          (case solve_captcha_manually e s1 of
             (solution, s2) \<Rightarrow>
               (case enter_captcha_solution e solution s2 of
                  (result, s3) \<Rightarrow> (Return result, s3))))"
  by (simp add: solve_captcha_try_def split: prod.splits sum.splits bool.splits)

lemma solve_captcha_last:
  "solve_captcha e 1 s =
     (case fetch_captcha_file e s of
        (Inl err, s1) \<Rightarrow> (Inl err, clean_up_captcha_file s1)
      | (Inr u, s1) \<Rightarrow>
          (case solve_captcha_manually e s1 of
             (solution, s2) \<Rightarrow>
               (case enter_captcha_solution e solution s2 of
                  (result, s3) \<Rightarrow> (result, clean_up_captcha_file s3))))"
  by (simp add: solve_captcha_no_recursion solve_captcha_try_last split: prod.splits sum.splits)

lemma fetch_captcha_file_image:
  "fst (fetch_captcha_file e s) = Inr u \<Longrightarrow> image (snd (fetch_captcha_file e s)) \<noteq> None"
  by (simp add: fetch_captcha_file_def Let_def split: fetch_outcome.splits if_splits)

lemma solve_captcha_with_ai_posts:
  "ai_service_url e \<noteq> [] \<Longrightarrow> ai_service_api_key e \<noteq> [] \<Longrightarrow> image s \<noteq> None \<Longrightarrow>
   ai_posts (snd (solve_captcha_with_ai e s)) = ai_posts s + 1"
  by (auto simp: solve_captcha_with_ai_def Let_def split: option.splits ai_outcome.splits)

subsection \<open>The last try\<close>

text \<open>
  Claim C5. Called with one try remaining, \<open>solve_captcha\<close> never calls
  \<open>solve_captcha_with_ai\<close> and never posts to the AI service, whatever the URL and the key
  of the service are; once the CAPTCHA image has been fetched, it asks the operator
  exactly once.
\<close>

theorem last_try_is_manual:
  "ai_calls (snd (solve_captcha e 1 s)) = ai_calls s \<and>
   ai_posts (snd (solve_captcha e 1 s)) = ai_posts s \<and>
   ((\<exists>content. captcha_fetch e (fetches s) = Fetched 200 content) \<longrightarrow>
      prompts (snd (solve_captcha e 1 s)) = prompts s + 1)"
proof (cases "fetch_captcha_file e s")
  case (Pair r s1)
  note f = fetch_captcha_file_fields [of e s, unfolded Pair snd_conv]
  show ?thesis
  proof (cases r)
    case (Inl err)
    with Pair fetch_captcha_file_result [of e s] show ?thesis
      by (simp add: solve_captcha_last f clean_up_captcha_file_fields)
  next
    case (Inr u)
    obtain solution s2 where m: "solve_captcha_manually e s1 = (solution, s2)"
      by (cases "solve_captcha_manually e s1")
    obtain result s3 where en: "enter_captcha_solution e solution s2 = (result, s3)"
      by (cases "enter_captcha_solution e solution s2")
    note g = solve_captcha_manually_fields [of e s1, unfolded m snd_conv]
    note h = enter_captcha_solution_fields [of e solution s2, unfolded en snd_conv]
    from Pair Inr m en show ?thesis
      by (simp add: solve_captcha_last f g h clean_up_captcha_file_fields)
  qed
qed

theorem last_try_is_manual_witness:
  "(\<exists>content. captcha_fetch example_env (fetches fresh_state) = Fetched 200 content) \<and>
   ai_service_url example_env \<noteq> [] \<and> ai_service_api_key example_env \<noteq> [] \<and>
   ai_calls (snd (solve_captcha example_env 1 fresh_state)) = 0 \<and>
   ai_posts (snd (solve_captcha example_env 1 fresh_state)) = 0 \<and>
   prompts (snd (solve_captcha example_env 1 fresh_state)) = 1"
  using last_try_is_manual [of example_env fresh_state]
  by (simp add: example_env_def fresh_state_def)

subsection \<open>A try budget of zero or less\<close>

lemma solve_captcha_try_nonpositive:
  "tries_remaining \<le> 0 \<Longrightarrow>
   solve_captcha_try e tries_remaining s =
     (case fetch_captcha_file e s of
        (Inl err, s1) \<Rightarrow> (Return (Inl err), s1)
      | (Inr u, s1) \<Rightarrow>
          (case solve_captcha_with_ai e s1 of
             (Inr solution, s2) \<Rightarrow>
               (case enter_captcha_solution e solution s2 of
                  (result, s3) \<Rightarrow> (Return result, s3))
           | (Inl err, s2) \<Rightarrow>
               (case solve_captcha_manually e s2 of
                  (solution, s3) \<Rightarrow>
                    (case enter_captcha_solution e solution s3 of
                       (result, s4) \<Rightarrow> (Return result, s4)))))"
  by (simp add: solve_captcha_try_def split: prod.splits sum.splits bool.splits)

lemma solve_captcha_nonpositive:
  "tries_remaining \<le> 0 \<Longrightarrow>
   solve_captcha e tries_remaining s =
     (case fetch_captcha_file e s of
        (Inl err, s1) \<Rightarrow> (Inl err, clean_up_captcha_file s1)
      | (Inr u, s1) \<Rightarrow>
          (case solve_captcha_with_ai e s1 of
             (Inr solution, s2) \<Rightarrow>
               (case enter_captcha_solution e solution s2 of
                  (result, s3) \<Rightarrow> (result, clean_up_captcha_file s3))
           | (Inl err, s2) \<Rightarrow>
               (case solve_captcha_manually e s2 of
                  (solution, s3) \<Rightarrow>
                    (case enter_captcha_solution e solution s3 of
                       (result, s4) \<Rightarrow> (result, clean_up_captcha_file s4)))))"
  by (simp add: solve_captcha_no_recursion solve_captcha_try_nonpositive split: prod.splits sum.splits)

text \<open>
  Claim C9. Called with zero or a negative number of tries, \<open>solve_captcha\<close> does not
  reject the call: it fetches the CAPTCHA image once and, when the fetch succeeds, calls
  \<open>solve_captcha_with_ai\<close> (which posts to the service when the service is configured),
  submits one solution and returns the result of the submission.
\<close>

theorem nonpositive_tries_still_attempt:
  assumes "tries_remaining \<le> 0"
  shows "fetches (snd (solve_captcha e tries_remaining s)) = fetches s + 1 \<and>
         ((\<exists>content. captcha_fetch e (fetches s) = Fetched 200 content) \<longrightarrow>
            ai_calls (snd (solve_captcha e tries_remaining s)) = ai_calls s + 1 \<and>
            (ai_service_url e \<noteq> [] \<and> ai_service_api_key e \<noteq> [] \<longrightarrow>
               ai_posts (snd (solve_captcha e tries_remaining s)) = ai_posts s + 1) \<and>
            length (submitted (snd (solve_captcha e tries_remaining s))) = length (submitted s) + 1 \<and>
            (\<exists>b. fst (solve_captcha e tries_remaining s) = Inr b))"
proof (cases "fetch_captcha_file e s")
  case (Pair r s1)
  note f = fetch_captcha_file_fields [of e s, unfolded Pair snd_conv]
  show ?thesis
  proof (cases r)
    case (Inl err)
    with Pair assms fetch_captcha_file_result [of e s] show ?thesis
      by (simp add: solve_captcha_nonpositive f clean_up_captcha_file_fields)
  next
    case (Inr u)
    obtain a s2 where ai: "solve_captcha_with_ai e s1 = (a, s2)"
      by (cases "solve_captcha_with_ai e s1")
    note g = solve_captcha_with_ai_fields [of e s1, unfolded ai snd_conv]
    have img: "image s1 \<noteq> None"
      using fetch_captcha_file_image [of e s u] Pair Inr by simp
    have p: "ai_service_url e \<noteq> [] \<and> ai_service_api_key e \<noteq> [] \<longrightarrow> ai_posts s2 = ai_posts s + 1"
      using solve_captcha_with_ai_posts [of e s1] img ai f by simp
    show ?thesis
    proof (cases a)
      case (Inr solution)
      obtain result s3 where en: "enter_captcha_solution e solution s2 = (result, s3)"
        by (cases "enter_captcha_solution e solution s2")
      note h = enter_captcha_solution_fields [of e solution s2, unfolded en snd_conv]
      from enter_captcha_solution_never_raises [of e solution s2] en
      obtain b where "result = Inr b" by auto
      with Pair \<open>r = Inr u\<close> ai Inr en assms p show ?thesis
        by (simp add: solve_captcha_nonpositive f g h clean_up_captcha_file_fields)
    next
      case (Inl err)
      obtain solution s3 where m: "solve_captcha_manually e s2 = (solution, s3)"
        by (cases "solve_captcha_manually e s2")
      obtain result s4 where en: "enter_captcha_solution e solution s3 = (result, s4)"
        by (cases "enter_captcha_solution e solution s3")
      note k = solve_captcha_manually_fields [of e s2, unfolded m snd_conv]
      note h = enter_captcha_solution_fields [of e solution s3, unfolded en snd_conv]
      from enter_captcha_solution_never_raises [of e solution s3] en
      obtain b where "result = Inr b" by auto
      with Pair \<open>r = Inr u\<close> ai Inl m en assms p show ?thesis
        by (simp add: solve_captcha_nonpositive f g h k clean_up_captcha_file_fields)
    qed
  qed
qed

theorem nonpositive_tries_still_attempt_witness:
  "(-2 :: int) \<le> 0 \<and>
   (\<exists>content. captcha_fetch example_env (fetches fresh_state) = Fetched 200 content) \<and>
   ai_service_url example_env \<noteq> [] \<and> ai_service_api_key example_env \<noteq> [] \<and>
   fetches (snd (solve_captcha example_env (-2) fresh_state)) = 1 \<and>
   ai_calls (snd (solve_captcha example_env (-2) fresh_state)) = 1 \<and>
   ai_posts (snd (solve_captcha example_env (-2) fresh_state)) = 1 \<and>
   length (submitted (snd (solve_captcha example_env (-2) fresh_state))) = 1 \<and>
   (\<exists>b. fst (solve_captcha example_env (-2) fresh_state) = Inr b)"
  using nonpositive_tries_still_attempt [of "-2" example_env fresh_state]
  by (simp add: example_env_def fresh_state_def)

subsection \<open>Failures while submitting\<close>

text \<open>
  \<open>same_progress\<close> relates two states that agree on everything except the record of
  \<open>time.sleep\<close> calls; \<open>submission_raises\<close> holds of the three ways in which the browser
  can fail during a submission.
\<close>

definition same_progress :: "captcha_state \<Rightarrow> captcha_state \<Rightarrow> bool" where
  "same_progress s1 s2 =
     (image s1 = image s2 \<and> fetches s1 = fetches s2 \<and> ai_calls s1 = ai_calls s2 \<and>
      ai_posts s1 = ai_posts s2 \<and> prompts s1 = prompts s2 \<and> submitted s1 = submitted s2)"

definition submission_raises :: "submit_outcome \<Rightarrow> bool" where
  "submission_raises outcome = (outcome = FillRaises \<or> outcome = SubmitRaises \<or> outcome = PageRaises)"

text \<open>
  The two halves of \<open>solve_captcha_try\<close> after the fetch: obtaining a solution and
  submitting it.
\<close>

definition choose_solution :: "captcha_env \<Rightarrow> int \<Rightarrow> captcha_state \<Rightarrow> string option \<times> captcha_state" where
  "choose_solution e tries_remaining s1 =
     (if tries_remaining = 1 then
        (case solve_captcha_manually e s1 of (solution, s2) \<Rightarrow> (Some solution, s2))
      else
        (case solve_captcha_with_ai e s1 of
           (Inr solution, s2) \<Rightarrow> (Some solution, s2)
         | (Inl err, s2) \<Rightarrow>
             if tries_remaining - 1 > 0 then (None, s2)
             else (case solve_captcha_manually e s2 of
                     (solution, s3) \<Rightarrow> (Some solution, s3))))"

definition submit_solution :: "captcha_env \<Rightarrow> int \<Rightarrow> string \<Rightarrow> captcha_state \<Rightarrow> attempt_outcome \<times> captcha_state" where
  "submit_solution e tries_remaining solution s2 =
     (case enter_captcha_solution e solution s2 of
        (Inl err, s3) \<Rightarrow> (Return (Inl err), s3)
      | (Inr True, s3) \<Rightarrow> (Return (Inr True), s3)
      | (Inr False, s3) \<Rightarrow>
          if tries_remaining > 1 then (Recurse, s3) else (Return (Inr False), s3))"

lemma solve_captcha_try_steps:
  "solve_captcha_try e tries_remaining s =
     (case fetch_captcha_file e s of
        (Inl err, s1) \<Rightarrow> (Return (Inl err), s1)
      | (Inr u, s1) \<Rightarrow>
          (case choose_solution e tries_remaining s1 of
             (None, s2) \<Rightarrow> (Recurse, s2)
           | (Some solution, s2) \<Rightarrow> submit_solution e tries_remaining solution s2))"
  unfolding solve_captcha_try_def choose_solution_def submit_solution_def ..

definition related :: "('a \<times> captcha_state) \<Rightarrow> ('a \<times> captcha_state) \<Rightarrow> bool" where
  "related p q = (fst p = fst q \<and> same_progress (snd p) (snd q))"

lemma relatedE:
  assumes "related p q"
  obtains r s1 s2 where "p = (r, s1)" "q = (r, s2)" "same_progress s1 s2"
  using assms by (cases p; cases q) (auto simp: related_def)

lemma fetch_sim:
  "same_progress s1 s2 \<Longrightarrow>
   related (fetch_captcha_file (e\<lparr>submission := f\<rparr>) s1) (fetch_captcha_file e s2)"
  by (auto simp: related_def same_progress_def fetch_captcha_file_def Let_def split: fetch_outcome.splits)

lemma manual_sim:
  "same_progress s1 s2 \<Longrightarrow>
   related (solve_captcha_manually (e\<lparr>submission := f\<rparr>) s1) (solve_captcha_manually e s2)"
  by (auto simp: related_def same_progress_def solve_captcha_manually_def)

lemma ai_sim:
  "same_progress s1 s2 \<Longrightarrow>
   related (solve_captcha_with_ai (e\<lparr>submission := f\<rparr>) s1) (solve_captcha_with_ai e s2)"
  by (auto simp: related_def same_progress_def solve_captcha_with_ai_def solve_captcha_manually_def Let_def
      split: option.splits ai_outcome.splits)

lemma clean_up_sim:
  "same_progress s1 s2 \<Longrightarrow> same_progress (clean_up_captcha_file s1) (clean_up_captcha_file s2)"
  by (simp add: same_progress_def clean_up_captcha_file_def)

lemma enter_sim:
  assumes "same_progress s1 s2" "submission_raises (submission e i)" "sublist ''Invalid CAPTCHA'' page"
  shows "related (enter_captcha_solution (e\<lparr>submission := (submission e)(i := Page page)\<rparr>) solution s1)
                 (enter_captcha_solution e solution s2)"
  using assms
  by (cases "submission e (length (submitted s2))")
     (auto simp: related_def same_progress_def submission_raises_def enter_captcha_solution_def
        enter_captcha_try_def Let_def)

lemma choose_sim:
  assumes "same_progress s1 s2"
  shows "related (choose_solution (e\<lparr>submission := f\<rparr>) t s1) (choose_solution e t s2)"
proof (cases "t = 1")
  case True
  from manual_sim [OF assms, where e = e and f = f] show ?thesis
    by (rule relatedE) (simp add: choose_solution_def True related_def)
next
  case False
  from ai_sim [OF assms, where e = e and f = f] show ?thesis
  proof (rule relatedE)
    fix r a1 a2
    assume eq: "solve_captcha_with_ai (e\<lparr>submission := f\<rparr>) s1 = (r, a1)"
      "solve_captcha_with_ai e s2 = (r, a2)" and rel: "same_progress a1 a2"
    show ?thesis
    proof (cases r)
      case (Inr solution)
      with eq rel False show ?thesis by (simp add: choose_solution_def related_def)
    next
      case (Inl err)
      from manual_sim [OF rel, where e = e and f = f] show ?thesis
        by (rule relatedE) (use eq Inl False rel in \<open>simp add: choose_solution_def related_def\<close>)
    qed
  qed
qed

lemma submit_sim:
  assumes "same_progress s1 s2" "submission_raises (submission e i)" "sublist ''Invalid CAPTCHA'' page"
  shows "related (submit_solution (e\<lparr>submission := (submission e)(i := Page page)\<rparr>) t solution s1)
                 (submit_solution e t solution s2)"
  using enter_sim [OF assms, where solution = solution]
  by (rule relatedE) (simp add: submit_solution_def related_def split: sum.splits bool.splits)

lemma try_sim:
  assumes "same_progress s1 s2" "submission_raises (submission e i)" "sublist ''Invalid CAPTCHA'' page"
  shows "related (solve_captcha_try (e\<lparr>submission := (submission e)(i := Page page)\<rparr>) t s1)
                 (solve_captcha_try e t s2)"
  using fetch_sim [OF assms(1), where e = e and f = "(submission e)(i := Page page)"]
proof (rule relatedE)
  fix r a1 a2
  assume eq: "fetch_captcha_file (e\<lparr>submission := (submission e)(i := Page page)\<rparr>) s1 = (r, a1)"
    "fetch_captcha_file e s2 = (r, a2)" and rel: "same_progress a1 a2"
  show ?thesis
  proof (cases r)
    case (Inl err)
    with eq rel show ?thesis by (simp add: solve_captcha_try_steps related_def)
  next
    case (Inr u)
    from choose_sim [OF rel, where e = e and f = "(submission e)(i := Page page)" and t = t] show ?thesis
    proof (rule relatedE)
      fix c b1 b2
      assume ch: "choose_solution (e\<lparr>submission := (submission e)(i := Page page)\<rparr>) t a1 = (c, b1)"
        "choose_solution e t a2 = (c, b2)" and rel2: "same_progress b1 b2"
      show ?thesis
      proof (cases c)
        case None
        with eq Inr ch rel2 show ?thesis by (simp add: solve_captcha_try_steps related_def)
      next
        case (Some solution)
        from submit_sim [OF rel2 assms(2,3), where t = t and solution = solution] eq Inr ch Some show ?thesis
          by (simp add: solve_captcha_try_steps)
      qed
    qed
  qed
qed

lemma solve_captcha_sim:
  assumes "submission_raises (submission e i)" "sublist ''Invalid CAPTCHA'' page"
  shows "same_progress s1 s2 \<Longrightarrow>
         related (solve_captcha (e\<lparr>submission := (submission e)(i := Page page)\<rparr>) t s1)
                 (solve_captcha e t s2)"
proof -
  define e' where "e' = e\<lparr>submission := (submission e)(i := Page page)\<rparr>"
  have step: "related (solve_captcha_try e' t s1) (solve_captcha_try e t s2)"
    if "same_progress s1 s2" for t s1 s2
    unfolding e'_def using that assms by (rule try_sim)
  have "related (solve_captcha e' t s1) (solve_captcha e t s2)" if "same_progress s1 s2"
    using that
  proof (induction "nat t" arbitrary: t s1 s2)
    case 0
    then have t: "t \<le> 1" by simp
    from step [OF "0.prems", of t] show ?case
    proof (rule relatedE)
      fix r a1 a2
      assume eq: "solve_captcha_try e' t s1 = (r, a1)" "solve_captcha_try e t s2 = (r, a2)"
        and rel: "same_progress a1 a2"
      from eq(2) t have "r \<noteq> Recurse"
        by (auto dest: solve_captcha_try_Recurse)
      then obtain result where "r = Return result" by (cases r) auto
      with eq rel show ?thesis
        by (simp add: solve_captcha.simps [of _ t] related_def clean_up_sim)
    qed
  next
    case (Suc n)
    from step [OF Suc.prems, of t] show ?case
    proof (rule relatedE)
      fix r a1 a2
      assume eq: "solve_captcha_try e' t s1 = (r, a1)" "solve_captcha_try e t s2 = (r, a2)"
        and rel: "same_progress a1 a2"
      show ?thesis
      proof (cases r)
        case (Return result)
        with eq rel show ?thesis
          by (simp add: solve_captcha.simps [of _ t] related_def clean_up_sim)
      next
        case Recurse
        from Suc.hyps(2) have "n = nat (t - 1)" by simp
        from Suc.hyps(1) [OF this rel] show ?thesis
          by (rule relatedE)
             (use eq Recurse in \<open>simp add: solve_captcha.simps [of _ t] related_def clean_up_sim\<close>)
      qed
    qed
  qed
  then show "same_progress s1 s2 \<Longrightarrow>
         related (solve_captcha (e\<lparr>submission := (submission e)(i := Page page)\<rparr>) t s1)
                 (solve_captcha e t s2)"
    unfolding e'_def .
qed

lemma same_progress_refl: "same_progress s s"
  by (simp add: same_progress_def)

text \<open>
  Claim C10. \<open>enter_captcha_solution\<close> never raises; when filling the field, submitting
  the form or reading the page raises, it returns \<open>False\<close>. \<open>solve_captcha\<close> cannot tell
  such a failure from a wrong solution: replacing the failure at any submission by a
  page that shows the marker \<open>Invalid CAPTCHA\<close> leaves the result of \<open>solve_captcha\<close> and
  every call it makes unchanged (only the settle delay, which is not slept when filling
  or submitting raises, differs).
\<close>

theorem submission_failure_counts_as_wrong_solution:
  "(\<exists>b. fst (enter_captcha_solution e solution s) = Inr b) \<and>
   (submission_raises (submission e (length (submitted s))) \<longrightarrow>
      fst (enter_captcha_solution e solution s) = Inr False) \<and>
   (submission_raises (submission e i) \<and> sublist ''Invalid CAPTCHA'' page \<longrightarrow>
      fst (solve_captcha e tries_remaining s) =
        fst (solve_captcha (e\<lparr>submission := (submission e)(i := Page page)\<rparr>) tries_remaining s) \<and>
      same_progress (snd (solve_captcha e tries_remaining s))
        (snd (solve_captcha (e\<lparr>submission := (submission e)(i := Page page)\<rparr>) tries_remaining s)))"
proof (intro conjI impI)
  show "\<exists>b. fst (enter_captcha_solution e solution s) = Inr b"
    by (auto simp: enter_captcha_solution_def split: prod.splits sum.splits)
next
  assume "submission_raises (submission e (length (submitted s)))"
  then show "fst (enter_captcha_solution e solution s) = Inr False"
    by (auto simp: submission_raises_def enter_captcha_solution_def enter_captcha_try_def Let_def)
next
  assume a: "submission_raises (submission e i) \<and> sublist ''Invalid CAPTCHA'' page"
  then have r: "related (solve_captcha (e\<lparr>submission := (submission e)(i := Page page)\<rparr>) tries_remaining s)
                 (solve_captcha e tries_remaining s)"
    using solve_captcha_sim [OF _ _ same_progress_refl] by blast
  from r show "fst (solve_captcha e tries_remaining s) =
        fst (solve_captcha (e\<lparr>submission := (submission e)(i := Page page)\<rparr>) tries_remaining s)"
    by (simp add: related_def)
  from r show "same_progress (snd (solve_captcha e tries_remaining s))
        (snd (solve_captcha (e\<lparr>submission := (submission e)(i := Page page)\<rparr>) tries_remaining s))"
    by (auto simp: related_def same_progress_def)
qed

theorem submission_failure_counts_as_wrong_solution_witness:
  "submission_raises (submission failing_browser_env (length (submitted fresh_state))) \<and>
   submission_raises (submission failing_browser_env 0) \<and>
   sublist ''Invalid CAPTCHA'' ''Invalid CAPTCHA, try again'' \<and>
   fst (enter_captcha_solution failing_browser_env ''x7k2p'' fresh_state) = Inr False \<and>
   fst (solve_captcha failing_browser_env 3 fresh_state) =
     fst (solve_captcha
            (failing_browser_env\<lparr>submission :=
               (submission failing_browser_env)(0 := Page ''Invalid CAPTCHA, try again'')\<rparr>)
            3 fresh_state)"
  using submission_failure_counts_as_wrong_solution
    [of failing_browser_env "''x7k2p''" fresh_state 0 "''Invalid CAPTCHA, try again''" 3]
  by (simp add: failing_browser_env_def example_env_def fresh_state_def submission_raises_def)

section \<open>Properties of the downloader of pdf\_downloader.py\<close>

subsection \<open>What the primitive operations change\<close>

lemma log_to_csv_fields [simp]:
  "files (log_to_csv t r w) = files w"
  "requested (log_to_csv t r w) = requested w"
  "slept (log_to_csv t r w) = slept w"
  "fs_log (log_to_csv t r w) = fs_log w"
  by (simp_all add: log_to_csv_def)

lemma time_sleep_fields [simp]:
  "files (time_sleep d w) = files w"
  "requested (time_sleep d w) = requested w"
  "slept (time_sleep d w) = slept w @ [d]"
  "fs_log (time_sleep d w) = fs_log w"
  "csv_all (time_sleep d w) = csv_all w"
  "csv_good (time_sleep d w) = csv_good w"
  "csv_bad (time_sleep d w) = csv_bad w"
  by (simp_all add: time_sleep_def)

lemma write_file_fields [simp]:
  "files (write_file p content w) = fmupd p content (files w)"
  "requested (write_file p content w) = requested w"
  "slept (write_file p content w) = slept w"
  "fs_log (write_file p content w) = fs_log w @ [Wrote p content]"
  by (simp_all add: write_file_def)

lemma os_remove_fields [simp]:
  "files (os_remove p w) = fmdrop p (files w)"
  "requested (os_remove p w) = requested w"
  "slept (os_remove p w) = slept w"
  "fs_log (os_remove p w) = fs_log w @ [Removed p]"
  by (simp_all add: os_remove_def)

lemma requests_get_fields [simp]:
  "fst (requests_get net url w) = net (length (requested w))"
  "files (snd (requests_get net url w)) = files w"
  "requested (snd (requests_get net url w)) = requested w @ [url]"
  "slept (snd (requests_get net url w)) = slept w"
  "fs_log (snd (requests_get net url w)) = fs_log w"
  by (simp_all add: requests_get_def)

lemma is_pdf_valid_cong: "files w = files w' \<Longrightarrow> is_pdf_valid w p = is_pdf_valid w' p"
  by (simp add: is_pdf_valid_def)

lemma os_path_exists_cong: "files w = files w' \<Longrightarrow> os_path_exists w p = os_path_exists w' p"
  by (simp add: os_path_exists_def)

subsection \<open>One attempt\<close>

lemma try_download_cases:
  obtains
    (raises) msg where "net (length (requested w)) = RequestRaises msg"
      "try_download net link f w = (Inl msg, snd (requests_get net link w))"
  | (status) status_code chunks broken where "net (length (requested w)) = Reply status_code chunks broken"
      "status_code \<noteq> 200"
      "try_download net link f w =
         (Inl (''Failed to download PDF. Status code: '' @ str_int status_code), snd (requests_get net link w))"
  | (broken) chunks msg where "net (length (requested w)) = Reply 200 chunks (Some msg)"
      "try_download net link f w =
         (Inl msg, write_file f (concat (filter (\<lambda>chunk. chunk \<noteq> []) chunks)) (snd (requests_get net link w)))"
  | (valid) chunks where "net (length (requested w)) = Reply 200 chunks None"
      "take 4 (concat (filter (\<lambda>chunk. chunk \<noteq> []) chunks)) = ''%PDF''"
      "try_download net link f w =
         (Inr f,
          log_to_csv ''good'' [link, ''Success'', ''PDF downloaded and valid'']
            (log_to_csv ''all'' [link, ''Success'', ''PDF downloaded and valid'']
              (write_file f (concat (filter (\<lambda>chunk. chunk \<noteq> []) chunks)) (snd (requests_get net link w)))))"
  | (invalid) chunks where "net (length (requested w)) = Reply 200 chunks None"
      "take 4 (concat (filter (\<lambda>chunk. chunk \<noteq> []) chunks)) \<noteq> ''%PDF''"
      "try_download net link f w =
         (Inl ''Invalid PDF file format.'',
          log_to_csv ''bad'' [link, ''Failed'', ''Invalid PDF format'']
            (log_to_csv ''all'' [link, ''Failed'', ''Invalid PDF format'']
              (write_file f (concat (filter (\<lambda>chunk. chunk \<noteq> []) chunks)) (snd (requests_get net link w)))))"
proof (cases "net (length (requested w))")
  case (RequestRaises msg)
  then show ?thesis
    by (intro raises [of msg]) (simp_all add: try_download_def requests_get_def)
next
  case (Reply status_code chunks broken)
  show ?thesis
  proof (cases "status_code = 200")
    case False
    with Reply show ?thesis
      by (intro status [of status_code chunks broken]) (simp_all add: try_download_def requests_get_def)
  next
    case True
    show ?thesis
    proof (cases broken)
      case (Some msg)
      with Reply True show ?thesis
        by (intro broken [of chunks msg]) (simp_all add: try_download_def requests_get_def Let_def)
    next
      case None
      show ?thesis
      proof (cases "take 4 (concat (filter (\<lambda>chunk. chunk \<noteq> []) chunks)) = ''%PDF''")
        case True
        with Reply \<open>status_code = 200\<close> None show ?thesis
          by (intro valid [of chunks])
             (simp_all add: try_download_def requests_get_def Let_def is_pdf_valid_def write_file_def)
      next
        case False
        with Reply \<open>status_code = 200\<close> None show ?thesis
          by (intro invalid [of chunks])
             (simp_all add: try_download_def requests_get_def Let_def is_pdf_valid_def write_file_def)
      qed
    qed
  qed
qed

lemma try_download_requested:
  "requested (snd (try_download net link f w)) = requested w @ [link]"
  by (rule try_download_cases [of net w link f]) simp_all

lemma try_download_slept:
  "slept (snd (try_download net link f w)) = slept w"
  by (rule try_download_cases [of net w link f]) simp_all

lemma try_download_fs_log:
  "\<exists>evs. fs_log (snd (try_download net link f w)) = fs_log w @ evs \<and>
         (\<forall>ev \<in> set evs. \<exists>content. ev = Wrote f content)"
  by (rule try_download_cases [of net w link f]) simp_all

lemma try_download_success:
  "fst (try_download net link f w) = Inr p \<Longrightarrow>
   p = f \<and> is_pdf_valid (snd (try_download net link f w)) f"
  by (rule try_download_cases [of net w link f]) (simp_all add: is_pdf_valid_def)

subsection \<open>The loop over the attempts\<close>

text \<open>\<open>after_failure\<close> is what the \<open>except\<close> handler does to the world.\<close>

definition after_failure :: "config \<Rightarrow> string \<Rightarrow> int \<Rightarrow> string \<Rightarrow> world \<Rightarrow> world" where
  "after_failure c link attempt msg w1 =
     (let w2 = log_to_csv ''all'' [link, ''Failed'', msg] w1
      in if attempt < max_retries c then time_sleep (retry_delay c) w2 else w2)"

lemma after_failure_fields [simp]:
  "files (after_failure c link attempt msg w) = files w"
  "requested (after_failure c link attempt msg w) = requested w"
  "fs_log (after_failure c link attempt msg w) = fs_log w"
  "slept (after_failure c link attempt msg w) =
     (if attempt < max_retries c then slept w @ [retry_delay c] else slept w)"
  by (simp_all add: after_failure_def Let_def)

lemma download_attempts_unfold:
  "download_attempts c net link f attempt w =
     (if attempt \<le> max_retries c then
        (case try_download net link f w of
           (Inr path, w1) \<Rightarrow> (Some path, w1)
         | (Inl msg, w1) \<Rightarrow>
             download_attempts c net link f (attempt + 1) (after_failure c link attempt msg w1))
      else (None, log_to_csv ''bad'' [link, ''Failed'', ''Maximum retries exceeded''] w))"
  unfolding after_failure_def by (rule download_attempts.simps)

lemma download_attempts_induct [case_names exhausted success failure]:
  assumes "\<And>attempt w. \<not> attempt \<le> max_retries c \<Longrightarrow>
           download_attempts c net link f attempt w =
             (None, log_to_csv ''bad'' [link, ''Failed'', ''Maximum retries exceeded''] w) \<Longrightarrow>
           P attempt w"
    and "\<And>attempt w path w1. attempt \<le> max_retries c \<Longrightarrow>
           try_download net link f w = (Inr path, w1) \<Longrightarrow>
           download_attempts c net link f attempt w = (Some path, w1) \<Longrightarrow> P attempt w"
    and "\<And>attempt w msg w1. attempt \<le> max_retries c \<Longrightarrow>
           try_download net link f w = (Inl msg, w1) \<Longrightarrow>
           download_attempts c net link f attempt w =
             download_attempts c net link f (attempt + 1) (after_failure c link attempt msg w1) \<Longrightarrow>
           P (attempt + 1) (after_failure c link attempt msg w1) \<Longrightarrow> P attempt w"
  shows "P attempt w"
proof (induction "nat (max_retries c + 1 - attempt)" arbitrary: attempt w)
  case (0 attempt w)
  then have "\<not> attempt \<le> max_retries c" by simp
  then show ?case
    by (intro assms(1)) (simp_all add: download_attempts_unfold [of _ _ _ _ attempt])
next
  case (Suc n attempt w)
  then have le: "attempt \<le> max_retries c" by simp
  obtain r w1 where t: "try_download net link f w = (r, w1)"
    by (cases "try_download net link f w")
  show ?case
  proof (cases r)
    case (Inr path)
    with le t show ?thesis
      by (intro assms(2) [of attempt w path w1]) (simp_all add: download_attempts_unfold [of _ _ _ _ attempt])
  next
    case (Inl msg)
    from Suc.hyps(2) have "n = nat (max_retries c + 1 - (attempt + 1))" by simp
    then have "P (attempt + 1) (after_failure c link attempt msg w1)"
      by (rule Suc.hyps(1))
    with le t Inl show ?thesis
      by (intro assms(3) [of attempt w msg w1]) (simp_all add: download_attempts_unfold [of _ _ _ _ attempt])
  qed
qed

lemma download_attempts_success:
  "fst (download_attempts c net link f attempt w) = Some p \<Longrightarrow>
   p = f \<and> is_pdf_valid (snd (download_attempts c net link f attempt w)) f"
proof (induction attempt w rule: download_attempts_induct [of c net link f])
  case (exhausted attempt w)
  then show ?case by simp
next
  case (success attempt w path w1)
  with try_download_success [of net link f w path] show ?case by simp
next
  case (failure attempt w msg w1)
  then show ?case by simp
qed

lemma download_attempts_fs_log:
  "\<exists>evs. fs_log (snd (download_attempts c net link f attempt w)) = fs_log w @ evs \<and>
         (\<forall>ev \<in> set evs. \<exists>content. ev = Wrote f content)"
proof (induction attempt w rule: download_attempts_induct [of c net link f])
  case (exhausted attempt w)
  then show ?case by simp
next
  case (success attempt w path w1)
  with try_download_fs_log [of net link f w] show ?case by simp
next
  case (failure attempt w msg w1)
  from try_download_fs_log [of net link f w] failure(2)
  obtain evs1 where 1: "fs_log w1 = fs_log w @ evs1" "\<forall>ev \<in> set evs1. \<exists>content. ev = Wrote f content"
    by auto
  from failure(4) obtain evs2 where
    2: "fs_log (snd (download_attempts c net link f (attempt + 1) (after_failure c link attempt msg w1)))
         = fs_log w1 @ evs2" "\<forall>ev \<in> set evs2. \<exists>content. ev = Wrote f content"
    by auto
  have "fs_log (snd (download_attempts c net link f attempt w)) = fs_log w @ (evs1 @ evs2)"
    using failure(3) 1 2 by simp
  moreover have "\<forall>ev \<in> set (evs1 @ evs2). \<exists>content. ev = Wrote f content"
    using 1 2 by auto
  ultimately show ?case by blast
qed

lemma download_attempts_slept:
  "\<exists>k. slept (snd (download_attempts c net link f attempt w)) = slept w @ replicate k (retry_delay c)"
proof (induction attempt w rule: download_attempts_induct [of c net link f])
  case (exhausted attempt w)
  then show ?case by simp
next
  case (success attempt w path w1)
  with try_download_slept [of net link f w] show ?case by simp
next
  case (failure attempt w msg w1)
  from failure(4) obtain k where
    k: "slept (snd (download_attempts c net link f (attempt + 1) (after_failure c link attempt msg w1)))
         = slept (after_failure c link attempt msg w1) @ replicate k (retry_delay c)"
    by auto
  from try_download_slept [of net link f w] failure(2) have s: "slept w1 = slept w" by simp
  show ?case
  proof (cases "attempt < max_retries c")
    case True
    with failure(3) k s
    have "slept (snd (download_attempts c net link f attempt w)) = slept w @ replicate (Suc k) (retry_delay c)"
      by (simp add: replicate_app_Cons_same)
    then show ?thesis by blast
  next
    case False
    with failure(3) k s
    have "slept (snd (download_attempts c net link f attempt w)) = slept w @ replicate k (retry_delay c)"
      by simp
    then show ?thesis by blast
  qed
qed

lemma download_attempts_requested:
  "\<exists>k. requested (snd (download_attempts c net link f attempt w)) = requested w @ replicate k link"
proof (induction attempt w rule: download_attempts_induct [of c net link f])
  case (exhausted attempt w)
  then show ?case by simp
next
  case (success attempt w path w1)
  with try_download_requested [of net link f w] have
    "requested (snd (download_attempts c net link f attempt w)) = requested w @ replicate 1 link"
    by simp
  then show ?case by blast
next
  case (failure attempt w msg w1)
  from failure(4) obtain k where
    "requested (snd (download_attempts c net link f (attempt + 1) (after_failure c link attempt msg w1)))
       = requested w1 @ replicate k link"
    by auto
  with try_download_requested [of net link f w] failure(2,3) have
    "requested (snd (download_attempts c net link f attempt w)) = requested w @ replicate (Suc k) link"
    by simp
  then show ?case by blast
qed

lemma download_attempts_failed_slept:
  "fst (download_attempts c net link f attempt w) = None \<Longrightarrow>
   slept (snd (download_attempts c net link f attempt w)) =
     slept w @ replicate (nat (max_retries c - attempt)) (retry_delay c)"
proof (induction attempt w rule: download_attempts_induct [of c net link f])
  case (exhausted attempt w)
  then show ?case by simp
next
  case (success attempt w path w1)
  then show ?case by simp
next
  case (failure attempt w msg w1)
  from try_download_slept [of net link f w] failure(2) have s: "slept w1 = slept w" by simp
  from failure have ih: "slept (snd (download_attempts c net link f attempt w)) =
     slept (after_failure c link attempt msg w1) @ replicate (nat (max_retries c - (attempt + 1))) (retry_delay c)"
    by simp
  show ?case
  proof (cases "attempt < max_retries c")
    case True
    then have "nat (max_retries c - attempt) = Suc (nat (max_retries c - (attempt + 1)))" by simp
    with ih s True show ?thesis by (simp add: replicate_app_Cons_same)
  next
    case False
    with ih s show ?thesis by simp
  qed
qed

text \<open>A failed attempt that is not the last one is followed by another fetch.\<close>

lemma download_attempts_retries:
  assumes "attempt < max_retries c" "fst (try_download net link f w) = Inl msg"
  shows "\<exists>k. requested (snd (download_attempts c net link f attempt w)) =
           requested w @ link # link # replicate k link"
proof -
  obtain w1 where t: "try_download net link f w = (Inl msg, w1)"
    using assms(2) by (cases "try_download net link f w") simp
  let ?w2 = "after_failure c link attempt msg w1"
  have r1: "requested ?w2 = requested w @ [link]"
    using try_download_requested [of net link f w] t by simp
  have step: "download_attempts c net link f attempt w = download_attempts c net link f (attempt + 1) ?w2"
    using assms(1) t by (simp add: download_attempts_unfold [of _ _ _ _ attempt])
  obtain r w3 where t2: "try_download net link f ?w2 = (r, w3)"
    by (cases "try_download net link f ?w2")
  have r3: "requested w3 = requested w @ [link, link]"
    using try_download_requested [of net link f ?w2] t2 r1 by simp
  show ?thesis
  proof (cases r)
    case (Inr path)
    with t2 assms(1) have "download_attempts c net link f (attempt + 1) ?w2 = (Some path, w3)"
      by (simp add: download_attempts_unfold [of _ _ _ _ "attempt + 1"])
    with step r3 have "requested (snd (download_attempts c net link f attempt w)) =
        requested w @ link # link # replicate 0 link" by simp
    then show ?thesis by blast
  next
    case (Inl msg2)
    let ?w4 = "after_failure c link (attempt + 1) msg2 w3"
    from Inl t2 assms(1) have "download_attempts c net link f (attempt + 1) ?w2 =
        download_attempts c net link f (attempt + 1 + 1) ?w4"
      by (simp add: download_attempts_unfold [of _ _ _ _ "attempt + 1"])
    moreover obtain k where "requested (snd (download_attempts c net link f (attempt + 1 + 1) ?w4)) =
        requested ?w4 @ replicate k link"
      using download_attempts_requested by blast
    ultimately have "requested (snd (download_attempts c net link f attempt w)) =
        requested w @ link # link # replicate k link"
      using step r3 by simp
    then show ?thesis by blast
  qed
qed

lemma try_download_invalid:
  assumes "net (length (requested w)) = Reply 200 chunks None"
    "take 4 (concat (filter (\<lambda>chunk. chunk \<noteq> []) chunks)) \<noteq> ''%PDF''"
  shows "fst (try_download net link f w) = Inl ''Invalid PDF file format.''"
    and "fmlookup (files (snd (try_download net link f w))) f =
           Some (concat (filter (\<lambda>chunk. chunk \<noteq> []) chunks))"
  using assms by (rule_tac [!] try_download_cases [of net w link f]) simp_all

lemma try_download_writes:
  assumes "net (length (requested w)) = Reply 200 chunks broken"
  shows "fmlookup (files (snd (try_download net link f w))) f =
           Some (concat (filter (\<lambda>chunk. chunk \<noteq> []) chunks))"
  using assms by (rule_tac try_download_cases [of net w link f]) simp_all

section \<open>Properties of the downloader of v1/main.py\<close>

subsection \<open>The destination is a fresh name\<close>

lemma unique_counter_fresh:
  "\<not> os_path_exists w (numbered_name dir name ext (unique_counter w dir name ext counter))"
  by (induction w dir name ext counter rule: unique_counter.induct)
     (subst unique_counter.simps, simp)

lemma unique_counter_files:
  "files w = files w' \<Longrightarrow> unique_counter w dir name ext counter = unique_counter w' dir name ext counter"
proof (induction w dir name ext counter rule: unique_counter.induct)
  case (1 w dir name ext counter)
  then show ?case
    by (subst unique_counter.simps, subst (2) unique_counter.simps)
       (simp add: os_path_exists_def)
qed

lemma get_unique_filename_fresh: "\<not> os_path_exists w (get_unique_filename lib c w url)"
  by (simp add: get_unique_filename_def Let_def unique_counter_fresh split: prod.splits)

lemma get_unique_filename_files:
  "files w = files w' \<Longrightarrow> get_unique_filename lib c w url = get_unique_filename lib c w' url"
  by (simp add: get_unique_filename_def Let_def unique_counter_files [of w w'] split: prod.splits)

lemma log_pdf_details_fields [simp]:
  "files (log_pdf_details url status w) = files w"
  "requested (log_pdf_details url status w) = requested w"
  "slept (log_pdf_details url status w) = slept w"
  "fs_log (log_pdf_details url status w) = fs_log w"
  by (simp_all add: log_pdf_details_def Let_def)

subsection \<open>One attempt\<close>

text \<open>\<open>raises_v1\<close> holds of the replies that end in a \<open>RequestException\<close>.\<close>

definition raises_v1 :: "http_reply \<Rightarrow> bool" where
  "raises_v1 reply =
     (case reply of
        RequestRaises msg \<Rightarrow> True
      | Reply status_code chunks broken \<Rightarrow> broken \<noteq> None \<or> (400 \<le> status_code \<and> status_code < 600))"

lemma try_download_v1_cases:
  obtains
    (raises) "raises_v1 (net (length (requested w)))"
      "try_download_v1 lib c net url w = (Inl (), snd (requests_get net url w))"
  | (valid) status_code chunks where "net (length (requested w)) = Reply status_code chunks None"
      "\<not> (400 \<le> status_code \<and> status_code < 600)"
      "pdf_reader_accepts lib (concat chunks)"
      "try_download_v1 lib c net url w =
         (Inr True,
          log_pdf_details url ''Success''
            (write_file (get_unique_filename lib c w url) (concat chunks) (snd (requests_get net url w))))"
  | (invalid) status_code chunks where "net (length (requested w)) = Reply status_code chunks None"
      "\<not> (400 \<le> status_code \<and> status_code < 600)"
      "\<not> pdf_reader_accepts lib (concat chunks)"
      "try_download_v1 lib c net url w =
         (Inr False,
          os_remove (get_unique_filename lib c w url)
            (write_file (get_unique_filename lib c w url) (concat chunks) (snd (requests_get net url w))))"
proof (cases "net (length (requested w))")
  case (RequestRaises msg)
  then show ?thesis
    by (intro raises) (simp_all add: raises_v1_def try_download_v1_def requests_get_def)
next
  case (Reply status_code chunks broken)
  have g: "get_unique_filename lib c (w\<lparr>requested := requested w @ [url]\<rparr>) url = get_unique_filename lib c w url"
    by (rule get_unique_filename_files) simp
  show ?thesis
  proof (cases "broken \<noteq> None \<or> (400 \<le> status_code \<and> status_code < 600)")
    case True
    with Reply show ?thesis
      by (intro raises) (auto simp: raises_v1_def try_download_v1_def requests_get_def)
  next
    case False
    show ?thesis
    proof (cases "pdf_reader_accepts lib (concat chunks)")
      case True
      with Reply False show ?thesis
        by (intro valid [of status_code chunks])
           (simp_all add: try_download_v1_def requests_get_def Let_def validate_pdf_def write_file_def g)
    next
      case no: False
      with Reply False show ?thesis
        by (intro invalid [of status_code chunks])
           (simp_all add: try_download_v1_def requests_get_def Let_def validate_pdf_def write_file_def g)
    qed
  qed
qed

lemma try_download_v1_requested:
  "requested (snd (try_download_v1 lib c net url w)) = requested w @ [url]"
  by (rule try_download_v1_cases [of net w lib c url]) simp_all

lemma try_download_v1_slept:
  "slept (snd (try_download_v1 lib c net url w)) = slept w"
  by (rule try_download_v1_cases [of net w lib c url]) simp_all

lemma try_download_v1_raises_files:
  "fst (try_download_v1 lib c net url w) = Inl u \<Longrightarrow>
   files (snd (try_download_v1 lib c net url w)) = files w \<and>
   fs_log (snd (try_download_v1 lib c net url w)) = fs_log w"
  by (rule try_download_v1_cases [of net w lib c url]) simp_all

subsection \<open>The loop over the attempts\<close>

definition after_failure_v1 :: "config_v1 \<Rightarrow> int \<Rightarrow> world \<Rightarrow> world" where
  "after_failure_v1 c attempt w1 =
     (if attempt < MAX_RETRIES c - 1 then time_sleep (RETRY_DELAY c) w1 else w1)"

lemma after_failure_v1_fields [simp]:
  "files (after_failure_v1 c attempt w) = files w"
  "requested (after_failure_v1 c attempt w) = requested w"
  "fs_log (after_failure_v1 c attempt w) = fs_log w"
  "slept (after_failure_v1 c attempt w) =
     (if attempt < MAX_RETRIES c - 1 then slept w @ [RETRY_DELAY c] else slept w)"
  by (simp_all add: after_failure_v1_def)

lemma download_attempts_v1_unfold:
  "download_attempts_v1 lib c net url attempt w =
     (if attempt < MAX_RETRIES c then
        (case try_download_v1 lib c net url w of
           (Inr b, w1) \<Rightarrow> (b, w1)
         | (Inl u, w1) \<Rightarrow>
             download_attempts_v1 lib c net url (attempt + 1) (after_failure_v1 c attempt w1))
      else (False, log_pdf_details url ''Failed'' w))"
  unfolding after_failure_v1_def by (rule download_attempts_v1.simps)

lemma download_attempts_v1_induct [case_names exhausted returned failure]:
  assumes "\<And>attempt w. \<not> attempt < MAX_RETRIES c \<Longrightarrow>
           download_attempts_v1 lib c net url attempt w = (False, log_pdf_details url ''Failed'' w) \<Longrightarrow>
           P attempt w"
    and "\<And>attempt w b w1. attempt < MAX_RETRIES c \<Longrightarrow>
           try_download_v1 lib c net url w = (Inr b, w1) \<Longrightarrow>
           download_attempts_v1 lib c net url attempt w = (b, w1) \<Longrightarrow> P attempt w"
    and "\<And>attempt w u w1. attempt < MAX_RETRIES c \<Longrightarrow>
           try_download_v1 lib c net url w = (Inl u, w1) \<Longrightarrow>
           download_attempts_v1 lib c net url attempt w =
             download_attempts_v1 lib c net url (attempt + 1) (after_failure_v1 c attempt w1) \<Longrightarrow>
           P (attempt + 1) (after_failure_v1 c attempt w1) \<Longrightarrow> P attempt w"
  shows "P attempt w"
proof (induction "nat (MAX_RETRIES c - attempt)" arbitrary: attempt w)
  case (0 attempt w)
  then have "\<not> attempt < MAX_RETRIES c" by simp
  then show ?case
    by (intro assms(1)) (simp_all add: download_attempts_v1_unfold [of _ _ _ _ attempt])
next
  case (Suc n attempt w)
  then have le: "attempt < MAX_RETRIES c" by simp
  obtain r w1 where t: "try_download_v1 lib c net url w = (r, w1)"
    by (cases "try_download_v1 lib c net url w")
  show ?case
  proof (cases r)
    case (Inr b)
    with le t show ?thesis
      by (intro assms(2) [of attempt w b w1]) (simp_all add: download_attempts_v1_unfold [of _ _ _ _ attempt])
  next
    case (Inl u)
    from Suc.hyps(2) have "n = nat (MAX_RETRIES c - (attempt + 1))" by simp
    then have "P (attempt + 1) (after_failure_v1 c attempt w1)"
      by (rule Suc.hyps(1))
    with le t Inl show ?thesis
      by (intro assms(3) [of attempt w u w1]) (simp_all add: download_attempts_v1_unfold [of _ _ _ _ attempt])
  qed
qed

lemma download_attempts_v1_requested:
  "\<exists>k. requested (snd (download_attempts_v1 lib c net url attempt w)) = requested w @ replicate k url \<and>
        (attempt < MAX_RETRIES c \<longrightarrow> 0 < k)"
proof (induction attempt w rule: download_attempts_v1_induct [of c lib net url])
  case (exhausted attempt w)
  then show ?case by simp
next
  case (returned attempt w b w1)
  with try_download_v1_requested [of lib c net url w] have
    "requested (snd (download_attempts_v1 lib c net url attempt w)) = requested w @ replicate 1 url"
    by simp
  then show ?case by (intro exI [of _ 1]) simp
next
  case (failure attempt w u w1)
  from failure(4) obtain k where
    "requested (snd (download_attempts_v1 lib c net url (attempt + 1) (after_failure_v1 c attempt w1)))
       = requested w1 @ replicate k url"
    by auto
  with try_download_v1_requested [of lib c net url w] failure(2,3) have
    "requested (snd (download_attempts_v1 lib c net url attempt w)) = requested w @ replicate (Suc k) url"
    by simp
  then show ?case by (intro exI [of _ "Suc k"]) simp
qed

text \<open>The file system after a call: nothing new, or the accepted body at the fresh name.\<close>

lemma download_attempts_v1_fs:
  "(fs_log (snd (download_attempts_v1 lib c net url attempt w)) = fs_log w \<and>
    files (snd (download_attempts_v1 lib c net url attempt w)) = files w \<and>
    \<not> fst (download_attempts_v1 lib c net url attempt w)) \<or>
   (\<exists>body. fs_log (snd (download_attempts_v1 lib c net url attempt w)) =
              fs_log w @ [Wrote (get_unique_filename lib c w url) body] \<and>
           files (snd (download_attempts_v1 lib c net url attempt w)) =
              fmupd (get_unique_filename lib c w url) body (files w) \<and>
           pdf_reader_accepts lib body \<and>
           fst (download_attempts_v1 lib c net url attempt w)) \<or>
   (\<exists>body. fs_log (snd (download_attempts_v1 lib c net url attempt w)) =
              fs_log w @ [Wrote (get_unique_filename lib c w url) body,
                          Removed (get_unique_filename lib c w url)] \<and>
           files (snd (download_attempts_v1 lib c net url attempt w)) =
              fmdrop (get_unique_filename lib c w url)
                (fmupd (get_unique_filename lib c w url) body (files w)) \<and>
           \<not> pdf_reader_accepts lib body \<and>
           \<not> fst (download_attempts_v1 lib c net url attempt w))"
proof (induction attempt w rule: download_attempts_v1_induct [of c lib net url])
  case (exhausted attempt w)
  then show ?case by simp
next
  case (returned attempt w b w1)
  show ?case
  proof (rule try_download_v1_cases [of net w lib c url])
    assume "try_download_v1 lib c net url w = (Inl (), snd (requests_get net url w))"
    with returned show ?thesis by simp
  next
    fix status_code chunks
    assume "pdf_reader_accepts lib (concat chunks)"
      "try_download_v1 lib c net url w =
         (Inr True,
          log_pdf_details url ''Success''
            (write_file (get_unique_filename lib c w url) (concat chunks) (snd (requests_get net url w))))"
    with returned show ?thesis
      by - (rule disjI2, rule disjI1, rule exI [of _ "concat chunks"], auto)
  next
    fix status_code chunks
    assume "\<not> pdf_reader_accepts lib (concat chunks)"
      "try_download_v1 lib c net url w =
         (Inr False,
          os_remove (get_unique_filename lib c w url)
            (write_file (get_unique_filename lib c w url) (concat chunks) (snd (requests_get net url w))))"
    with returned show ?thesis
      by - (rule disjI2, rule disjI2, rule exI [of _ "concat chunks"], auto)
  qed
next
  case (failure attempt w u w1)
  from try_download_v1_raises_files [of lib c net url w u] failure(2)
  have same: "files w1 = files w" "fs_log w1 = fs_log w" by simp_all
  then have "files (after_failure_v1 c attempt w1) = files w" by simp
  then have g: "get_unique_filename lib c (after_failure_v1 c attempt w1) url = get_unique_filename lib c w url"
    by (rule get_unique_filename_files)
  from failure(4) show ?case
    unfolding failure(3) g by (simp add: same)
qed

lemma try_download_v1_valid:
  assumes "net (length (requested w)) = Reply status_code chunks None"
    "\<not> (400 \<le> status_code \<and> status_code < 600)" "pdf_reader_accepts lib (concat chunks)"
  shows "try_download_v1 lib c net url w =
         (Inr True,
          log_pdf_details url ''Success''
            (write_file (get_unique_filename lib c w url) (concat chunks) (snd (requests_get net url w))))"
  using assms by (rule_tac try_download_v1_cases [of net w lib c url]) (auto simp: raises_v1_def)

lemma try_download_v1_invalid:
  assumes "net (length (requested w)) = Reply status_code chunks None"
    "\<not> (400 \<le> status_code \<and> status_code < 600)" "\<not> pdf_reader_accepts lib (concat chunks)"
  shows "try_download_v1 lib c net url w =
         (Inr False,
          os_remove (get_unique_filename lib c w url)
            (write_file (get_unique_filename lib c w url) (concat chunks) (snd (requests_get net url w))))"
  using assms by (rule_tac try_download_v1_cases [of net w lib c url]) (auto simp: raises_v1_def)

lemma try_download_v1_raises:
  assumes "raises_v1 (net (length (requested w)))"
  shows "try_download_v1 lib c net url w = (Inl (), snd (requests_get net url w))"
  using assms by (rule_tac try_download_v1_cases [of net w lib c url]) (auto simp: raises_v1_def)

lemma requests_get_csv [simp]:
  "csv_all (snd (requests_get net url w)) = csv_all w"
  "csv_good (snd (requests_get net url w)) = csv_good w"
  "csv_bad (snd (requests_get net url w)) = csv_bad w"
  by (simp_all add: requests_get_def)

section \<open>The downloaders on the example inputs\<close>

lemma first_destination: "get_unique_filename example_library Config empty_world example_link = ''pdfs/a_1.pdf''"
  by (simp add: get_unique_filename_def example_library_def Config_def example_link_def empty_world_def
       last_segment_def os_path_splitext_def Let_def unique_counter.simps numbered_name_def
       os_path_join_def str_nat.simps digit_char_def os_path_exists_def)

lemma first_call:
  "download_pdf_v1 example_library Config pdf_net example_link empty_world = (True, first_world)"
proof -
  have "try_download_v1 example_library Config pdf_net example_link empty_world = (Inr True, first_world)"
    unfolding first_world_def first_destination [symmetric]
    by (subst try_download_v1_valid [of _ _ 200 "[''%PDF-1.4'']"])
       (simp_all add: pdf_net_def example_library_def)
  then show ?thesis
    by (simp add: download_pdf_v1_def download_attempts_v1_unfold [of _ _ _ _ 0] Config_def)
qed

lemma second_destination: "get_unique_filename example_library Config first_world example_link = ''pdfs/a_2.pdf''"
proof -
  have f: "files first_world = fmupd ''pdfs/a_1.pdf'' ''%PDF-1.4'' fmempty"
    by (simp add: first_world_def empty_world_def)
  show ?thesis
    by (simp add: get_unique_filename_def example_library_def Config_def example_link_def f
       last_segment_def os_path_splitext_def Let_def unique_counter.simps numbered_name_def
       os_path_join_def str_nat.simps digit_char_def os_path_exists_def)
qed

lemma second_call:
  "download_pdf_v1 example_library Config pdf_net example_link first_world =
     (True, log_pdf_details example_link ''Success''
        (write_file ''pdfs/a_2.pdf'' ''%PDF-1.4'' (snd (requests_get pdf_net example_link first_world))))"
proof -
  have "try_download_v1 example_library Config pdf_net example_link first_world =
     (Inr True, log_pdf_details example_link ''Success''
        (write_file ''pdfs/a_2.pdf'' ''%PDF-1.4'' (snd (requests_get pdf_net example_link first_world))))"
    unfolding second_destination [symmetric]
    by (subst try_download_v1_valid [of _ _ 200 "[''%PDF-1.4'']"])
       (simp_all add: pdf_net_def example_library_def)
  then show ?thesis
    by (simp add: download_pdf_v1_def download_attempts_v1_unfold [of _ _ _ _ 0] Config_def)
qed

section \<open>Where the body is written\<close>

lemma download_pdf_fs_log:
  "\<exists>evs. fs_log (snd (download_pdf c net link w)) = fs_log w @ evs \<and>
         (\<forall>ev \<in> set evs. \<exists>content. ev = Wrote (create_pdf_filename c link) content)"
proof (cases "os_path_exists w (create_pdf_filename c link)")
  case True
  then show ?thesis by (simp add: download_pdf_def)
next
  case False
  with download_attempts_fs_log [of c net link "create_pdf_filename c link" 1
      "log_to_csv ''all'' [link, ''Attempting'', ''Download started''] w"]
  show ?thesis by (simp add: download_pdf_def)
qed

lemma download_pdf_success:
  assumes "\<not> os_path_exists w (create_pdf_filename c link)" "fst (download_pdf c net link w) = Some p"
  shows "p = create_pdf_filename c link \<and> is_pdf_valid (snd (download_pdf c net link w)) p"
  using assms download_attempts_success [of c net link "create_pdf_filename c link" 1
      "log_to_csv ''all'' [link, ''Attempting'', ''Download started''] w" p]
  by (simp add: download_pdf_def)

text \<open>
  Claim C1, as the code has it. Neither downloader uses a temporary path or a rename:
  every change \<open>download_pdf\<close> of pdf\_downloader.py makes to the file system is a
  write to the destination \<open>create_pdf_filename c link\<close> itself, the body of every reply
  with status 200 is at the destination before it is validated, and a call that found
  no file there and returns a path returns the destination, holding a file that passes
  \<open>is_pdf_valid\<close>. \<open>download_pdf\<close> of v1/main.py changes nothing, or writes the body
  to the destination \<open>get_unique_filename\<close> chose and returns \<open>True\<close> when
  \<open>PdfReader\<close> accepts it, or writes the body there, removes the file again and
  returns \<open>False\<close> when \<open>PdfReader\<close> rejects it.
\<close>

theorem body_written_to_destination:
  "(\<exists>evs. fs_log (snd (download_pdf c net link w)) = fs_log w @ evs \<and>
          (\<forall>ev \<in> set evs. \<exists>content. ev = Wrote (create_pdf_filename c link) content)) \<and>
   (net (length (requested w)) = Reply 200 chunks broken \<longrightarrow>
      fmlookup (files (snd (try_download net link f w))) f =
        Some (concat (filter (\<lambda>chunk. chunk \<noteq> []) chunks))) \<and>
   (\<not> os_path_exists w (create_pdf_filename c link) \<and> fst (download_pdf c net link w) = Some p \<longrightarrow>
      p = create_pdf_filename c link \<and> is_pdf_valid (snd (download_pdf c net link w)) p) \<and>
   ((fs_log (snd (download_pdf_v1 lib cv net url w)) = fs_log w \<and>
     files (snd (download_pdf_v1 lib cv net url w)) = files w \<and>
     \<not> fst (download_pdf_v1 lib cv net url w)) \<or>
    (\<exists>body. fs_log (snd (download_pdf_v1 lib cv net url w)) =
              fs_log w @ [Wrote (get_unique_filename lib cv w url) body] \<and>
            files (snd (download_pdf_v1 lib cv net url w)) =
              fmupd (get_unique_filename lib cv w url) body (files w) \<and>
            pdf_reader_accepts lib body \<and>
            fst (download_pdf_v1 lib cv net url w)) \<or>
    (\<exists>body. fs_log (snd (download_pdf_v1 lib cv net url w)) =
              fs_log w @ [Wrote (get_unique_filename lib cv w url) body,
                          Removed (get_unique_filename lib cv w url)] \<and>
            files (snd (download_pdf_v1 lib cv net url w)) =
              fmdrop (get_unique_filename lib cv w url)
                (fmupd (get_unique_filename lib cv w url) body (files w)) \<and>
            \<not> pdf_reader_accepts lib body \<and>
            \<not> fst (download_pdf_v1 lib cv net url w)))"
proof (intro conjI)
  show "\<exists>evs. fs_log (snd (download_pdf c net link w)) = fs_log w @ evs \<and>
          (\<forall>ev \<in> set evs. \<exists>content. ev = Wrote (create_pdf_filename c link) content)"
    by (rule download_pdf_fs_log)
  show "net (length (requested w)) = Reply 200 chunks broken \<longrightarrow>
      fmlookup (files (snd (try_download net link f w))) f =
        Some (concat (filter (\<lambda>chunk. chunk \<noteq> []) chunks))"
    by (simp add: try_download_writes)
  show "\<not> os_path_exists w (create_pdf_filename c link) \<and> fst (download_pdf c net link w) = Some p \<longrightarrow>
      p = create_pdf_filename c link \<and> is_pdf_valid (snd (download_pdf c net link w)) p"
    using download_pdf_success [of w c link net p] by blast
  show "(fs_log (snd (download_pdf_v1 lib cv net url w)) = fs_log w \<and>
     files (snd (download_pdf_v1 lib cv net url w)) = files w \<and>
     \<not> fst (download_pdf_v1 lib cv net url w)) \<or>
    (\<exists>body. fs_log (snd (download_pdf_v1 lib cv net url w)) =
              fs_log w @ [Wrote (get_unique_filename lib cv w url) body] \<and>
            files (snd (download_pdf_v1 lib cv net url w)) =
              fmupd (get_unique_filename lib cv w url) body (files w) \<and>
            pdf_reader_accepts lib body \<and>
            fst (download_pdf_v1 lib cv net url w)) \<or>
    (\<exists>body. fs_log (snd (download_pdf_v1 lib cv net url w)) =
              fs_log w @ [Wrote (get_unique_filename lib cv w url) body,
                          Removed (get_unique_filename lib cv w url)] \<and>
            files (snd (download_pdf_v1 lib cv net url w)) =
              fmdrop (get_unique_filename lib cv w url)
                (fmupd (get_unique_filename lib cv w url) body (files w)) \<and>
            \<not> pdf_reader_accepts lib body \<and>
            \<not> fst (download_pdf_v1 lib cv net url w))"
    unfolding download_pdf_v1_def by (rule download_attempts_v1_fs)
qed

lemma download_pdf_example:
  "download_pdf single_try_config pdf_net example_link empty_world =
     (Some ''data/pdfs/a.pdf'',
      empty_world\<lparr>files := fmupd ''data/pdfs/a.pdf'' ''%PDF-1.4'' fmempty,
                  requested := [example_link],
                  fs_log := [Wrote ''data/pdfs/a.pdf'' ''%PDF-1.4''],
                  csv_all := [[example_link, ''Attempting'', ''Download started''],
                              [example_link, ''Success'', ''PDF downloaded and valid'']],
                  csv_good := [[example_link, ''Success'', ''PDF downloaded and valid'']]\<rparr>)"
  by (simp add: example_defs run_defs)

theorem body_written_to_destination_witness:
  "pdf_net (length (requested empty_world)) = Reply 200 [''%PDF-1.4''] None \<and>
   \<not> os_path_exists empty_world (create_pdf_filename single_try_config example_link) \<and>
   fst (download_pdf single_try_config pdf_net example_link empty_world) = Some ''data/pdfs/a.pdf'' \<and>
   fmlookup (files (snd (try_download pdf_net example_link ''data/pdfs/a.pdf'' empty_world))) ''data/pdfs/a.pdf'' =
     Some ''%PDF-1.4'' \<and>
   create_pdf_filename single_try_config example_link = ''data/pdfs/a.pdf'' \<and>
   is_pdf_valid (snd (download_pdf single_try_config pdf_net example_link empty_world)) ''data/pdfs/a.pdf'' \<and>
   fst (download_pdf_v1 example_library Config pdf_net example_link empty_world) \<and>
   get_unique_filename example_library Config empty_world example_link = ''pdfs/a_1.pdf''"
  using body_written_to_destination
    [of single_try_config pdf_net example_link empty_world "[''%PDF-1.4'']" None "''data/pdfs/a.pdf''"
        "''data/pdfs/a.pdf''" example_library Config example_link]
  by (simp add: download_pdf_example first_call first_destination)
     (simp add: example_defs create_pdf_filename_def os_path_join_def last_segment_def os_path_exists_def)

text \<open>
  A transfer that breaks off after two chunks, with a single attempt allowed:
  \<open>download_pdf\<close> returns \<open>None\<close> and the partial body is the file at the destination.
\<close>

theorem partial_download_at_destination_counterexample:
  "fst (download_pdf single_try_config broken_net example_link empty_world) = None \<and>
   fmlookup (files (snd (download_pdf single_try_config broken_net example_link empty_world)))
     (create_pdf_filename single_try_config example_link) = Some ''%PDF-1.4 1 0 obj'' \<and>
   fs_log (snd (download_pdf single_try_config broken_net example_link empty_world)) =
     [Wrote (create_pdf_filename single_try_config example_link) ''%PDF-1.4 1 0 obj'']"
  by (simp add: example_defs run_defs)

section \<open>A body that is not a PDF\<close>

text \<open>
  In v1/main.py a call that returns \<open>False\<close> leaves no file at the destination it chose.
\<close>

lemma download_pdf_v1_failure_leaves_no_file:
  assumes "\<not> fst (download_pdf_v1 lib c net url w)"
  shows "\<not> os_path_exists (snd (download_pdf_v1 lib c net url w)) (get_unique_filename lib c w url)"
  using download_attempts_v1_fs [of lib c net url 0 w] assms get_unique_filename_fresh [of w lib c url]
  by (auto simp: download_pdf_v1_def os_path_exists_def)

text \<open>
  Claim C2, evaluated on \<open>download_pdf\<close> of pdf\_downloader.py. One attempt is allowed and
  the reply is an HTML page with status 200. The call makes its one fetch and returns
  \<open>None\<close>, and the HTML page is still the file at the destination: nothing removes it.
  The next call for the same link finds the file, records \<open>Skipped\<close> and returns its
  path without a fetch.
\<close>

theorem invalid_pdf_left_at_destination:
  "fst (download_pdf single_try_config html_net example_link empty_world) = None \<and>
   requested (snd (download_pdf single_try_config html_net example_link empty_world)) = [example_link] \<and>
   fmlookup (files (snd (download_pdf single_try_config html_net example_link empty_world)))
     (create_pdf_filename single_try_config example_link) = Some ''<html>'' \<and>
   download_pdf single_try_config pdf_net example_link
       (snd (download_pdf single_try_config html_net example_link empty_world)) =
     (Some (create_pdf_filename single_try_config example_link),
      log_to_csv ''all'' [example_link, ''Skipped'', ''PDF already exists'']
        (snd (download_pdf single_try_config html_net example_link empty_world)))"
  by (simp add: example_defs run_defs)

text \<open>
  With three attempts allowed, \<open>download_pdf\<close> of pdf\_downloader.py fetches the HTML page
  three times: the exception raised for the invalid format reaches the handler of the
  loop like every other one.
\<close>

theorem invalid_format_retried_counterexample:
  "html_net 0 = Reply 200 [''<html>''] None \<and>
   take 4 (concat (filter (\<lambda>chunk. chunk \<noteq> []) [''<html>''])) \<noteq> ''%PDF'' \<and>
   fst (download_pdf example_config html_net example_link empty_world) = None \<and>
   requested (snd (download_pdf example_config html_net example_link empty_world)) =
     [example_link, example_link, example_link]"
  by (simp add: example_defs run_defs)

text \<open>
  Claim C3, as the code has it. In v1/main.py a body that \<open>PdfReader\<close> rejects ends the
  call at once, whatever the number of the attempt: \<open>False\<close> is returned, the fetch of
  this attempt is the last one and the file is gone. In pdf\_downloader.py a body that
  does not start with \<open>%PDF\<close> counts as a failed attempt: when it is not the last
  attempt, at least one more fetch follows.
\<close>

theorem invalid_format_and_retries:
  "(attempt < MAX_RETRIES cv \<and> net (length (requested w)) = Reply status_code chunks None \<and>
    \<not> (400 \<le> status_code \<and> status_code < 600) \<and> \<not> pdf_reader_accepts lib (concat chunks) \<longrightarrow>
      fst (download_attempts_v1 lib cv net url attempt w) = False \<and>
      requested (snd (download_attempts_v1 lib cv net url attempt w)) = requested w @ [url] \<and>
      \<not> os_path_exists (snd (download_attempts_v1 lib cv net url attempt w))
          (get_unique_filename lib cv w url)) \<and>
   (attempt' < max_retries c \<and> net' (length (requested w')) = Reply 200 chunks' None \<and>
    take 4 (concat (filter (\<lambda>chunk. chunk \<noteq> []) chunks')) \<noteq> ''%PDF'' \<longrightarrow>
      (\<exists>k. requested (snd (download_attempts c net' link f attempt' w')) =
             requested w' @ link # link # replicate k link))"
proof (intro conjI impI)
  assume a: "attempt < MAX_RETRIES cv \<and> net (length (requested w)) = Reply status_code chunks None \<and>
    \<not> (400 \<le> status_code \<and> status_code < 600) \<and> \<not> pdf_reader_accepts lib (concat chunks)"
  let ?d = "get_unique_filename lib cv w url"
  let ?w1 = "os_remove ?d (write_file ?d (concat chunks) (snd (requests_get net url w)))"
  have t: "try_download_v1 lib cv net url w = (Inr False, ?w1)"
    using a by (intro try_download_v1_invalid) auto
  with a have r: "download_attempts_v1 lib cv net url attempt w = (False, ?w1)"
    by (simp add: download_attempts_v1_unfold [of _ _ _ _ attempt])
  show "fst (download_attempts_v1 lib cv net url attempt w) = False"
    by (simp add: r)
  show "requested (snd (download_attempts_v1 lib cv net url attempt w)) = requested w @ [url]"
    by (simp add: r)
  show "\<not> os_path_exists (snd (download_attempts_v1 lib cv net url attempt w)) ?d"
    by (simp add: r os_path_exists_def)
next
  assume a: "attempt' < max_retries c \<and> net' (length (requested w')) = Reply 200 chunks' None \<and>
    take 4 (concat (filter (\<lambda>chunk. chunk \<noteq> []) chunks')) \<noteq> ''%PDF''"
  have "fst (try_download net' link f w') = Inl ''Invalid PDF file format.''"
    using a by (intro try_download_invalid) auto
  with a show "\<exists>k. requested (snd (download_attempts c net' link f attempt' w')) =
             requested w' @ link # link # replicate k link"
    by (intro download_attempts_retries) auto
qed

theorem invalid_format_and_retries_witness:
  "(0 :: int) < MAX_RETRIES Config \<and> html_net (length (requested empty_world)) = Reply 200 [''<html>''] None \<and>
   \<not> (400 \<le> (200 :: int) \<and> (200 :: int) < 600) \<and>
   \<not> pdf_reader_accepts example_library (concat [''<html>'']) \<and>
   (1 :: int) < max_retries example_config \<and>
   take 4 (concat (filter (\<lambda>chunk. chunk \<noteq> []) [''<html>''])) \<noteq> ''%PDF'' \<and>
   fst (download_attempts_v1 example_library Config html_net example_link 0 empty_world) = False \<and>
   requested (snd (download_attempts_v1 example_library Config html_net example_link 0 empty_world)) =
     [example_link] \<and>
   (\<exists>k. requested (snd (download_attempts example_config html_net example_link ''data/pdfs/a.pdf'' 1 empty_world)) =
          example_link # example_link # replicate k example_link)"
  using invalid_format_and_retries
    [of 0 Config html_net empty_world 200 "[''<html>'']" example_library example_link
        1 example_config html_net empty_world "[''<html>'']" example_link "''data/pdfs/a.pdf''"]
  by (simp add: example_defs)

section \<open>A destination that exists\<close>

lemma download_pdf_skips:
  assumes "os_path_exists w (create_pdf_filename c link)"
  shows "download_pdf c net link w =
           (Some (create_pdf_filename c link),
            log_to_csv ''all'' [link, ''Skipped'', ''PDF already exists''] w)"
  using assms by (simp add: download_pdf_def)

lemma download_pdf_success_exists:
  assumes "fst (download_pdf c net link w) = Some p"
  shows "p = create_pdf_filename c link \<and>
         os_path_exists (snd (download_pdf c net link w)) (create_pdf_filename c link)"
proof (cases "os_path_exists w (create_pdf_filename c link)")
  case True
  with assms show ?thesis
    by (simp add: download_pdf_skips os_path_exists_def)
next
  case False
  from download_pdf_success [OF False assms] show ?thesis
    by (auto simp: is_pdf_valid_def os_path_exists_def split: option.splits)
qed

text \<open>
  Claim C4, as the code has it. In pdf\_downloader.py a call whose destination exists
  returns the destination at once: the world is unchanged but for the row \<open>Skipped\<close> in
  the record of all attempts, so no network call is made; and after a call that
  returned a path, a second call for the same link returns the same path, makes no
  network call and records \<open>Skipped\<close>, whatever the network would answer. In v1/main.py
  the destination chosen by \<open>get_unique_filename\<close> never exists, and every call fetches at
  least once when at least one attempt is allowed.
\<close>

theorem existing_destination_is_skipped:
  "(os_path_exists w (create_pdf_filename c link) \<longrightarrow>
      download_pdf c net link w =
        (Some (create_pdf_filename c link),
         log_to_csv ''all'' [link, ''Skipped'', ''PDF already exists''] w) \<and>
      requested (snd (download_pdf c net link w)) = requested w) \<and>
   (fst (download_pdf c first_net link v) = Some p \<longrightarrow>
      fst (download_pdf c second_net link (snd (download_pdf c first_net link v))) = Some p \<and>
      requested (snd (download_pdf c second_net link (snd (download_pdf c first_net link v)))) =
        requested (snd (download_pdf c first_net link v)) \<and>
      csv_all (snd (download_pdf c second_net link (snd (download_pdf c first_net link v)))) =
        csv_all (snd (download_pdf c first_net link v)) @ [[link, ''Skipped'', ''PDF already exists'']]) \<and>
   \<not> os_path_exists u (get_unique_filename lib cv u url) \<and>
   (0 < MAX_RETRIES cv \<longrightarrow>
      (\<exists>k. requested (snd (download_pdf_v1 lib cv net_v url u)) = requested u @ url # replicate k url))"
proof (intro conjI impI)
  assume ex: "os_path_exists w (create_pdf_filename c link)"
  show "download_pdf c net link w =
        (Some (create_pdf_filename c link),
         log_to_csv ''all'' [link, ''Skipped'', ''PDF already exists''] w)"
    using ex by (rule download_pdf_skips)
  then show "requested (snd (download_pdf c net link w)) = requested w"
    by simp
next
  assume ok: "fst (download_pdf c first_net link v) = Some p"
  let ?w1 = "snd (download_pdf c first_net link v)"
  from download_pdf_success_exists [OF ok] have p: "p = create_pdf_filename c link"
    and ex: "os_path_exists ?w1 (create_pdf_filename c link)" by simp_all
  have eq: "download_pdf c second_net link ?w1 =
      (Some p, log_to_csv ''all'' [link, ''Skipped'', ''PDF already exists''] ?w1)"
    unfolding p using ex by (rule download_pdf_skips)
  show "fst (download_pdf c second_net link ?w1) = Some p" by (simp add: eq)
  show "requested (snd (download_pdf c second_net link ?w1)) = requested ?w1" by (simp add: eq)
  show "csv_all (snd (download_pdf c second_net link ?w1)) =
        csv_all ?w1 @ [[link, ''Skipped'', ''PDF already exists'']]"
    by (simp add: eq log_to_csv_def)
next
  show "\<not> os_path_exists u (get_unique_filename lib cv u url)"
    by (rule get_unique_filename_fresh)
next
  assume "0 < MAX_RETRIES cv"
  with download_attempts_v1_requested [of lib cv net_v url 0 u]
  obtain k where "requested (snd (download_pdf_v1 lib cv net_v url u)) = requested u @ replicate k url"
    "0 < k" by (auto simp: download_pdf_v1_def)
  then have "requested (snd (download_pdf_v1 lib cv net_v url u)) = requested u @ url # replicate (k - 1) url"
    by (cases k) simp_all
  then show "\<exists>k. requested (snd (download_pdf_v1 lib cv net_v url u)) = requested u @ url # replicate k url"
    by blast
qed

lemma download_pdf_example_exists:
  "os_path_exists (snd (download_pdf single_try_config pdf_net example_link empty_world))
     (create_pdf_filename single_try_config example_link)"
  by (simp add: download_pdf_example)
     (simp add: example_defs create_pdf_filename_def os_path_join_def last_segment_def os_path_exists_def)

theorem existing_destination_is_skipped_witness:
  "os_path_exists (snd (download_pdf single_try_config pdf_net example_link empty_world))
     (create_pdf_filename single_try_config example_link) \<and>
   fst (download_pdf single_try_config pdf_net example_link empty_world) = Some ''data/pdfs/a.pdf'' \<and>
   (0 :: int) < MAX_RETRIES Config \<and>
   fst (download_pdf single_try_config failing_net example_link
          (snd (download_pdf single_try_config pdf_net example_link empty_world))) = Some ''data/pdfs/a.pdf'' \<and>
   requested (snd (download_pdf single_try_config failing_net example_link
          (snd (download_pdf single_try_config pdf_net example_link empty_world)))) = [example_link] \<and>
   (\<exists>k. requested (snd (download_pdf_v1 example_library Config pdf_net example_link empty_world)) =
          example_link # replicate k example_link)"
  using existing_destination_is_skipped
    [where w = "snd (download_pdf single_try_config pdf_net example_link empty_world)"
       and c = single_try_config and link = example_link and net = failing_net
       and v = empty_world and first_net = pdf_net and p = "''data/pdfs/a.pdf''" and second_net = failing_net
       and u = empty_world and lib = example_library and cv = Config and url = example_link
       and net_v = pdf_net]
    download_pdf_example_exists
  by (simp add: download_pdf_example)
     (simp add: example_defs create_pdf_filename_def os_path_join_def last_segment_def)

text \<open>
  Two calls of \<open>download_pdf\<close> of v1/main.py for the same URL: both fetch, and the body is
  stored twice, under two names.
\<close>

theorem second_download_fetches_again_counterexample:
  "fst (download_pdf_v1 example_library Config pdf_net example_link empty_world) \<and>
   requested (snd (download_pdf_v1 example_library Config pdf_net example_link empty_world)) = [example_link] \<and>
   fst (download_pdf_v1 example_library Config pdf_net example_link
          (snd (download_pdf_v1 example_library Config pdf_net example_link empty_world))) \<and>
   requested (snd (download_pdf_v1 example_library Config pdf_net example_link
          (snd (download_pdf_v1 example_library Config pdf_net example_link empty_world)))) =
     [example_link, example_link] \<and>
   fs_log (snd (download_pdf_v1 example_library Config pdf_net example_link
          (snd (download_pdf_v1 example_library Config pdf_net example_link empty_world)))) =
     [Wrote ''pdfs/a_1.pdf'' ''%PDF-1.4'', Wrote ''pdfs/a_2.pdf'' ''%PDF-1.4'']"
  by (simp add: first_call second_call) (simp add: first_world_def empty_world_def)

section \<open>The waits between attempts\<close>

lemma retry_wrapper_sleeps:
  "\<exists>m. snd (retry_wrapper max_tries delay backoff func tries sleeps) =
        sleeps @ map (\<lambda>j. delay * backoff ^ j) [tries..<tries + m]"
proof (induction "nat (max_tries - int tries)" arbitrary: tries sleeps)
  case 0
  then have "\<not> int tries < max_tries" by simp
  then have "snd (retry_wrapper max_tries delay backoff func tries sleeps) =
      sleeps @ map (\<lambda>j. delay * backoff ^ j) [tries..<tries + 0]"
    by (simp add: retry_wrapper.simps [of _ _ _ _ tries])
  then show ?case by blast
next
  case (Suc n)
  then have lt: "int tries < max_tries" by simp
  show ?case
  proof (cases "func tries = RaisesListed \<and> int (tries + 1) \<noteq> max_tries")
    case False
    with lt have "snd (retry_wrapper max_tries delay backoff func tries sleeps) =
        sleeps @ map (\<lambda>j. delay * backoff ^ j) [tries..<tries + 0]"
      by (auto simp: retry_wrapper.simps [of _ _ _ _ tries] split: call_outcome.splits)
    then show ?thesis by blast
  next
    case True
    from Suc.hyps(2) have "n = nat (max_tries - int (tries + 1))" by simp
    from Suc.hyps(1) [OF this, of "sleeps @ [delay * backoff ^ tries]"]
    obtain m where m: "snd (retry_wrapper max_tries delay backoff func (tries + 1)
          (sleeps @ [delay * backoff ^ tries])) =
        (sleeps @ [delay * backoff ^ tries]) @ map (\<lambda>j. delay * backoff ^ j) [tries + 1..<tries + 1 + m]"
      by blast
    have "[tries..<tries + Suc m] = tries # [tries + 1..<tries + 1 + m]"
      by (simp add: upt_conv_Cons)
    with True lt m have "snd (retry_wrapper max_tries delay backoff func tries sleeps) =
        sleeps @ map (\<lambda>j. delay * backoff ^ j) [tries..<tries + Suc m]"
      by (simp add: retry_wrapper.simps [of _ _ _ _ tries])
    then show ?thesis by blast
  qed
qed

lemma retry_wrapper_waits_after_failures:
  assumes "\<forall>k. tries \<le> k \<and> k < n \<longrightarrow> func k = RaisesListed" "int n < max_tries" "tries \<le> n"
  shows "length sleeps + (n - tries) \<le>
         length (snd (retry_wrapper max_tries delay backoff func tries sleeps))"
  using assms
proof (induction "n - tries" arbitrary: tries sleeps)
  case 0
  from retry_wrapper_sleeps [of max_tries delay backoff func tries sleeps] show ?case
    using 0 by auto
next
  case (Suc d)
  then have f: "func tries = RaisesListed" and lt: "int (tries + 1) < max_tries + 1"
    and ne: "int (tries + 1) \<noteq> max_tries" and lt': "int tries < max_tries"
    by auto
  have step: "retry_wrapper max_tries delay backoff func tries sleeps =
      retry_wrapper max_tries delay backoff func (tries + 1) (sleeps @ [delay * backoff ^ tries])"
    using f ne lt' by (simp add: retry_wrapper.simps [of _ _ _ _ tries])
  from Suc.hyps(2) have "d = n - (tries + 1)" by simp
  from Suc.hyps(1) [OF this, of "sleeps @ [delay * backoff ^ tries]"] Suc.prems Suc.hyps(2)
  have "length (sleeps @ [delay * backoff ^ tries]) + (n - (tries + 1)) \<le>
      length (snd (retry_wrapper max_tries delay backoff func (tries + 1) (sleeps @ [delay * backoff ^ tries])))"
    by auto
  with step Suc.hyps(2) show ?case by simp
qed

lemma download_pdf_slept:
  "\<exists>k. slept (snd (download_pdf c net link w)) = slept w @ replicate k (retry_delay c)"
proof (cases "os_path_exists w (create_pdf_filename c link)")
  case True
  then have "slept (snd (download_pdf c net link w)) = slept w @ replicate 0 (retry_delay c)"
    by (simp add: download_pdf_def)
  then show ?thesis by blast
next
  case False
  with download_attempts_slept [of c net link "create_pdf_filename c link" 1
      "log_to_csv ''all'' [link, ''Attempting'', ''Download started''] w"]
  show ?thesis by (simp add: download_pdf_def)
qed

lemma download_pdf_failed_slept:
  assumes "\<not> os_path_exists w (create_pdf_filename c link)" "fst (download_pdf c net link w) = None"
  shows "slept (snd (download_pdf c net link w)) =
           slept w @ replicate (nat (max_retries c - 1)) (retry_delay c)"
  using assms download_attempts_failed_slept [of c net link "create_pdf_filename c link" 1
      "log_to_csv ''all'' [link, ''Attempting'', ''Download started''] w"]
  by (simp add: download_pdf_def)

text \<open>
  Claim C8, as the code has it. The wrapper of the \<open>retry\<close> decorator sleeps
  \<open>delay * backoff ^ (n - 1)\<close> after its \<open>n\<close>-th failed try, and it does sleep after each
  of the first \<open>m\<close> tries when they raise a listed exception and \<open>m < max_tries\<close>.
  \<open>download_pdf\<close> of pdf\_downloader.py has no multiplier: each of its sleeps is
  \<open>retry_delay\<close>, and a call that fails on every attempt sleeps \<open>max_retries - 1\<close> times.
  Neither adds jitter.
\<close>

theorem retry_waits:
  "(\<forall>n. 1 \<le> n \<and> n \<le> length (snd (retry max_tries delay backoff func)) \<longrightarrow>
        snd (retry max_tries delay backoff func) ! (n - 1) = delay * backoff ^ (n - 1)) \<and>
   ((\<forall>k<m. func k = RaisesListed) \<and> int m < max_tries \<longrightarrow>
        m \<le> length (snd (retry max_tries delay backoff func))) \<and>
   (\<exists>k. slept (snd (download_pdf c net link w)) = slept w @ replicate k (retry_delay c)) \<and>
   (\<not> os_path_exists w (create_pdf_filename c link) \<and> fst (download_pdf c net link w) = None \<longrightarrow>
      slept (snd (download_pdf c net link w)) =
        slept w @ replicate (nat (max_retries c - 1)) (retry_delay c))"
proof (intro conjI allI impI)
  fix n
  assume n: "1 \<le> n \<and> n \<le> length (snd (retry max_tries delay backoff func))"
  from retry_wrapper_sleeps [of max_tries delay backoff func 0 "[]"]
  obtain k where k: "snd (retry max_tries delay backoff func) = map (\<lambda>j. delay * backoff ^ j) [0..<k]"
    by (auto simp: retry_def)
  with n have "n - 1 < k" by auto
  then show "snd (retry max_tries delay backoff func) ! (n - 1) = delay * backoff ^ (n - 1)"
    unfolding k by simp
next
  assume "(\<forall>k<m. func k = RaisesListed) \<and> int m < max_tries"
  with retry_wrapper_waits_after_failures [of 0 m func max_tries "[]" delay backoff]
  show "m \<le> length (snd (retry max_tries delay backoff func))"
    by (simp add: retry_def)
next
  show "\<exists>k. slept (snd (download_pdf c net link w)) = slept w @ replicate k (retry_delay c)"
    by (rule download_pdf_slept)
next
  assume "\<not> os_path_exists w (create_pdf_filename c link) \<and> fst (download_pdf c net link w) = None"
  then show "slept (snd (download_pdf c net link w)) =
        slept w @ replicate (nat (max_retries c - 1)) (retry_delay c)"
    using download_pdf_failed_slept by blast
qed

lemma retry_example: "retry 4 5 2 always_intercepted = (Reraised, [5, 10, 20])"
  by (simp add: retry_def retry_wrapper.simps always_intercepted_def)

lemma download_failing_example:
  "fst (download_pdf four_tries_config failing_net example_link empty_world) = None \<and>
   slept (snd (download_pdf four_tries_config failing_net example_link empty_world)) = [5, 5, 5]"
  by (simp add: four_tries_config_def example_defs run_defs)

theorem retry_waits_witness:
  "(1 :: nat) \<le> 3 \<and> 3 \<le> length (snd (retry 4 5 2 always_intercepted)) \<and>
   always_intercepted 0 = RaisesListed \<and> always_intercepted 1 = RaisesListed \<and>
   always_intercepted 2 = RaisesListed \<and> int 3 < 4 \<and>
   \<not> os_path_exists empty_world (create_pdf_filename four_tries_config example_link) \<and>
   fst (download_pdf four_tries_config failing_net example_link empty_world) = None \<and>
   snd (retry 4 5 2 always_intercepted) ! (3 - 1) = 5 * 2 ^ (3 - 1) \<and>
   slept (snd (download_pdf four_tries_config failing_net example_link empty_world)) =
     replicate (nat (max_retries four_tries_config - 1)) (retry_delay four_tries_config)"
  using retry_waits [of 4 5 2 always_intercepted 3 four_tries_config failing_net example_link empty_world]
    download_failing_example
  by (simp add: retry_example)
     (simp add: always_intercepted_def four_tries_config_def example_defs create_pdf_filename_def
        os_path_join_def last_segment_def os_path_exists_def)

text \<open>
  With the same base of five seconds and four tries, the decorator with its default
  multiplier waits 5, 10 and 20 seconds, and \<open>download_pdf\<close> waits 5 seconds each time:
  its second wait is not \<open>5 * 2 ^ (2 - 1)\<close>.
\<close>

theorem download_wait_constant_counterexample:
  "slept (snd (download_pdf four_tries_config failing_net example_link empty_world)) = [5, 5, 5] \<and>
   snd (retry 4 5 2 always_intercepted) = [5, 10, 20] \<and>
   slept (snd (download_pdf four_tries_config failing_net example_link empty_world)) ! (2 - 1)
     \<noteq> (5 :: nat) * 2 ^ (2 - 1)"
  by (simp add: download_failing_example retry_example)

section \<open>The resume state\<close>

text \<open>
  Claim C6, as the code has it. \<open>load_resume_state\<close> returns the empty set when the state
  file is absent. When the file is present, the result is whatever \<open>pickle.load\<close> makes
  of its contents: there is no handler, so an exception of \<open>pickle.load\<close> leaves
  \<open>load_resume_state\<close> (and the constructor of \<open>Crawler\<close> that calls it), and a file
  with no bytes gives \<open>EOFError\<close>.
\<close>

theorem load_resume_state_cases:
  "(fmlookup (files w) (RESUME_STATE_FILE c) = None \<longrightarrow> load_resume_state lib c w = Inr {}) \<and>
   (fmlookup (files v) (RESUME_STATE_FILE c) = Some content \<longrightarrow>
      load_resume_state lib c v = pickle_load lib content) \<and>
   (fmlookup (files u) (RESUME_STATE_FILE c) = Some [] \<longrightarrow>
      load_resume_state lib c u = Inl EOFError)"
  by (simp add: load_resume_state_def pickle_load_def)

theorem load_resume_state_cases_witness:
  "fmlookup (files empty_world) (RESUME_STATE_FILE Config) = None \<and>
   fmlookup (files garbage_state_world) (RESUME_STATE_FILE Config) = Some ''garbage'' \<and>
   fmlookup (files truncated_state_world) (RESUME_STATE_FILE Config) = Some [] \<and>
   load_resume_state example_library Config empty_world = Inr {} \<and>
   load_resume_state example_library Config garbage_state_world = Inl UnpicklingError \<and>
   load_resume_state example_library Config truncated_state_world = Inl EOFError"
  using load_resume_state_cases
    [of empty_world Config example_library garbage_state_world "''garbage''" truncated_state_world]
  by (simp add: empty_world_def garbage_state_world_def truncated_state_world_def Config_def
        example_library_def pickle_load_def)

text \<open>
  A state file cut off before its first byte, as an interrupted \<open>save_resume_state\<close> leaves
  it: \<open>load_resume_state\<close> raises \<open>EOFError\<close> and does not return the empty set.
\<close>

theorem truncated_state_file_counterexample:
  "load_resume_state example_library Config truncated_state_world = Inl EOFError \<and>
   load_resume_state example_library Config truncated_state_world \<noteq> Inr {}"
  by (simp add: load_resume_state_def pickle_load_def truncated_state_world_def empty_world_def Config_def)

section \<open>The worker pool and the crawl\<close>

lemma download_pdf_v1_requested:
  "\<exists>k. requested (snd (download_pdf_v1 lib c net url w)) = requested w @ replicate k url \<and>
        (0 < MAX_RETRIES c \<longrightarrow> 0 < k)"
  unfolding download_pdf_v1_def by (rule download_attempts_v1_requested)

lemma download_pdfs_requested:
  "\<exists>rest. requested (download_pdfs lib c net pdf_urls w) = requested w @ rest \<and>
          (0 < MAX_RETRIES c \<longrightarrow> set pdf_urls \<subseteq> set rest)"
proof (induction pdf_urls arbitrary: w)
  case Nil
  then show ?case by simp
next
  case (Cons url pdf_urls)
  let ?w1 = "snd (download_pdf_v1 lib c net url w)"
  from download_pdf_v1_requested [of lib c net url w]
  obtain k where k: "requested ?w1 = requested w @ replicate k url" "0 < MAX_RETRIES c \<longrightarrow> 0 < k"
    by blast
  from Cons.IH [of ?w1]
  obtain rest where rest: "requested (download_pdfs lib c net pdf_urls ?w1) = requested ?w1 @ rest"
    "0 < MAX_RETRIES c \<longrightarrow> set pdf_urls \<subseteq> set rest"
    by blast
  have "requested (download_pdfs lib c net (url # pdf_urls) w) = requested w @ (replicate k url @ rest)"
    using k rest by simp
  moreover have "0 < MAX_RETRIES c \<longrightarrow> set (url # pdf_urls) \<subseteq> set (replicate k url @ rest)"
    using k rest by auto
  ultimately show ?case by blast
qed

lemma save_resume_state_fields [simp]:
  "requested (save_resume_state lib c visited_urls w) = requested w"
  "fmlookup (files (save_resume_state lib c visited_urls w)) (RESUME_STATE_FILE c) =
     Some (pickle_dumps lib visited_urls)"
  by (simp_all add: save_resume_state_def)

text \<open>
  Claim C7, as the code has it. \<open>download_pdfs\<close> hands every URL of its input to
  \<open>download_pdf\<close>, which fetches it when at least one attempt is allowed; it has no access
  to \<open>visited_urls\<close> and skips nothing. \<open>crawl\<close> never adds a URL to \<open>visited_urls\<close>: the
  set it started with is the set it keeps and the set it saves, whatever was extracted
  and downloaded. With \<open>extract_pdf_urls\<close> as it stands in the source, \<open>crawl\<close> hands
  nothing to the pool and makes no fetch.
\<close>

theorem every_url_is_dispatched:
  "(0 < MAX_RETRIES c \<longrightarrow>
      set pdf_urls \<subseteq> set (requested (download_pdfs lib c net pdf_urls w)) \<and>
      set pdf_urls \<subseteq>
        set (requested (snd (crawl_with (Some pdf_urls) lib c net True visited_urls w)))) \<and>
   fst (crawl_with extracted lib c net browser_ok visited_urls w) = visited_urls \<and>
   fmlookup (files (snd (crawl_with extracted lib c net browser_ok visited_urls w))) (RESUME_STATE_FILE c) =
     Some (pickle_dumps lib visited_urls) \<and>
   fst (crawl lib c net browser_ok visited_urls w) = visited_urls \<and>
   requested (snd (crawl lib c net browser_ok visited_urls w)) = requested w"
proof (intro conjI impI)
  assume pos: "0 < MAX_RETRIES c"
  from download_pdfs_requested [of lib c net pdf_urls w] pos
  show d: "set pdf_urls \<subseteq> set (requested (download_pdfs lib c net pdf_urls w))"
    by auto
  then show "set pdf_urls \<subseteq>
        set (requested (snd (crawl_with (Some pdf_urls) lib c net True visited_urls w)))"
    by (simp add: crawl_with_def)
next
  show "fst (crawl_with extracted lib c net browser_ok visited_urls w) = visited_urls"
    by (simp add: crawl_with_def Let_def)
  show "fmlookup (files (snd (crawl_with extracted lib c net browser_ok visited_urls w))) (RESUME_STATE_FILE c) =
     Some (pickle_dumps lib visited_urls)"
    by (simp add: crawl_with_def Let_def)
  show "fst (crawl lib c net browser_ok visited_urls w) = visited_urls"
    by (simp add: crawl_def crawl_with_def Let_def)
  show "requested (snd (crawl lib c net browser_ok visited_urls w)) = requested w"
    by (simp add: crawl_def crawl_with_def extract_pdf_urls_def Let_def)
qed

lemma crawl_with_example:
  "crawl_with (Some [example_link]) example_library Config pdf_net True visited_urls empty_world =
     (visited_urls, save_resume_state example_library Config visited_urls first_world)"
  by (simp add: crawl_with_def Let_def first_call [unfolded download_pdf_v1_def] download_pdf_v1_def)

lemma requested_first_world: "requested first_world = [example_link]"
  by (simp add: first_world_def empty_world_def)

theorem every_url_is_dispatched_witness:
  "(0 :: int) < MAX_RETRIES Config \<and>
   set [example_link] \<subseteq>
     set (requested (snd (crawl_with (Some [example_link]) example_library Config pdf_net True
                            {example_link} empty_world))) \<and>
   fst (crawl_with (Some [example_link]) example_library Config pdf_net True {example_link} empty_world) =
     {example_link} \<and>
   requested (snd (crawl example_library Config pdf_net True {example_link} empty_world)) = []"
  using every_url_is_dispatched
    [of Config "[example_link]" example_library pdf_net empty_world "{example_link}"
        "Some [example_link]" True]
  by (simp add: Config_def empty_world_def)

text \<open>
  A crawl whose extraction step yields one URL. When the URL is already in
  \<open>visited_urls\<close>, it is fetched all the same; when it is not, it is downloaded with
  success and \<open>visited_urls\<close> is still empty afterwards.
\<close>

theorem visited_url_is_fetched_counterexample:
  "example_link \<in> {example_link} \<and>
   requested (snd (crawl_with (Some [example_link]) example_library Config pdf_net True
                         {example_link} empty_world)) = [example_link] \<and>
   example_link \<notin> {} \<and>
   fst (download_pdf_v1 example_library Config pdf_net example_link empty_world) \<and>
   fst (crawl_with (Some [example_link]) example_library Config pdf_net True {} empty_world) = {}"
  by (simp add: crawl_with_example requested_first_world first_call)

end
